theory Spec2Isabelle
  imports Complex_Main "HOL-Library.AList"
begin

section \<open>Generation session protocol: \<^verbatim>\<open>lyria-client.js\<close>\<close>

text \<open>
  JavaScript numbers are modelled as \<^typ>\<open>real\<close>: the finite numbers. On finite
  doubles \<^verbatim>\<open>Math.max\<close>, \<^verbatim>\<open>Math.min\<close> and \<^verbatim>\<open>Math.round\<close> are exact, so the
  functions below compute what the source computes there; \<^verbatim>\<open>NaN\<close> and the
  infinities are outside the model.
\<close>

subsection \<open>Configuration objects\<close>

text \<open>
  A property of a JavaScript object is missing, present with the value
  \<^verbatim>\<open>undefined\<close>, or present with a value. The test \<^verbatim>\<open>x.p !== undefined\<close> does
  not tell the first two apart; the spread \<^verbatim>\<open>{...a, ...b}\<close> does.
\<close>

datatype 'a jsprop = Absent | Undef | Val 'a


text \<open>The object held in \<^verbatim>\<open>this.currentConfig\<close> and the argument \<^verbatim>\<open>config\<close>.\<close>

record config =
  bpm :: "real jsprop"
  density :: "real jsprop"
  brightness :: "real jsprop"
  scale :: "string jsprop"
  muteDrums :: "bool jsprop"
  muteBass :: "bool jsprop"
  onlyBassAndDrums :: "bool jsprop"
  mode :: "string jsprop"

text \<open>The object \<^verbatim>\<open>configObj\<close> built for the wire: a key is there or not.\<close>

record configObj =
  cfg_bpm :: "real option"
  cfg_density :: "real option"
  cfg_brightness :: "real option"
  cfg_scale :: "string option"
  cfg_muteDrums :: "bool option"
  cfg_muteBass :: "bool option"
  cfg_onlyBassAndDrums :: "bool option"
  cfg_musicGenerationMode :: "string option"


text \<open>\<^verbatim>\<open>{...a, ...b}\<close>: every own property of \<^verbatim>\<open>b\<close> overrides, also one whose
  value is \<^verbatim>\<open>undefined\<close>.\<close>

fun over :: "'a jsprop \<Rightarrow> 'a jsprop \<Rightarrow> 'a jsprop" where
  "over a Absent = a"
| "over a b = b"

definition spread :: "config \<Rightarrow> config \<Rightarrow> config" where
  "spread a b = \<lparr>bpm = over (bpm a) (bpm b), density = over (density a) (density b),
     brightness = over (brightness a) (brightness b), scale = over (scale a) (scale b),
     muteDrums = over (muteDrums a) (muteDrums b), muteBass = over (muteBass a) (muteBass b),
     onlyBassAndDrums = over (onlyBassAndDrums a) (onlyBassAndDrums b),
     mode = over (mode a) (mode b)\<rparr>"

text \<open>\<^verbatim>\<open>Math.round\<close>: the nearest integer, a tie going towards plus infinity.\<close>

definition Math_round :: "real \<Rightarrow> real" where
  "Math_round x = of_int \<lfloor>x + 1 / 2\<rfloor>"

text \<open>\<^verbatim>\<open>Math.max(0, Math.min(1, x))\<close>.\<close>

definition clamp01 :: "real \<Rightarrow> real" where
  "clamp01 x = max 0 (min 1 x)"

text \<open>\<^verbatim>\<open>if (config.p !== undefined) configObj.q = f(config.p)\<close>.\<close>

fun copyIfDefined :: "('a \<Rightarrow> 'b) \<Rightarrow> 'a jsprop \<Rightarrow> 'b option" where
  "copyIfDefined f (Val v) = Some (f v)"
| "copyIfDefined f _ = None"

definition buildConfigObj :: "config \<Rightarrow> configObj" where
  "buildConfigObj c =
     \<lparr>cfg_bpm = copyIfDefined Math_round (bpm c),
      cfg_density = copyIfDefined clamp01 (density c),
      cfg_brightness = copyIfDefined clamp01 (brightness c),
      cfg_scale = copyIfDefined id (scale c),
      cfg_muteDrums = copyIfDefined id (muteDrums c),
      cfg_muteBass = copyIfDefined id (muteBass c),
      cfg_onlyBassAndDrums = copyIfDefined id (onlyBassAndDrums c),
      cfg_musicGenerationMode = copyIfDefined id (mode c)\<rparr>"

subsection \<open>Prompts, messages and the client\<close>

text \<open>A prompt is a bare string or an object with optional \<^verbatim>\<open>text\<close> and
  \<^verbatim>\<open>weight\<close>; the argument of \<^verbatim>\<open>setWeightedPrompts\<close> is an array of prompts
  or a single one.\<close>

datatype prompt = PString string | PObject "string option" "real option"

datatype prompts_arg = PArray "prompt list" | PSingle prompt

record weightedPrompt =
  wp_text :: "string option"
  wp_weight :: real

datatype out_msg =
    Setup string
  | ClientContent "weightedPrompt list"
  | MusicGenerationConfig configObj
  | PlaybackControl string

datatype readyState = CONNECTING | OPEN | CLOSING | CLOSED

text \<open>What the callbacks were called with, in order.\<close>

datatype callback_event =
    AudioChunkEvent "nat list"
  | StateChangeEvent string
  | ErrorEvent string

text \<open>
  A registered callback is code of the caller: what the client sees of a call is
  whether it returns or throws. The application registers
  \<^verbatim>\<open>(data) => this.audioPlayer.processAudioChunk(data)\<close> for audio chunks, which
  throws on a buffer it cannot turn into an audio buffer.
\<close>

datatype outcome = Returns | Throws

text \<open>
  The client object. \<open>ws\<close> is \<open>None\<close> for \<^verbatim>\<open>null\<close>, else the socket's
  \<^verbatim>\<open>readyState\<close>. The slot \<open>onAudioChunk\<close> is \<open>None\<close> for \<^verbatim>\<open>null\<close>, else
  the outcome of the registered callback on each buffer. The slots
  \<open>onStateChange\<close>, \<open>onError\<close> and \<open>onClose\<close> hold whether a callback is
  registered; these callbacks are taken to return normally (the application's
  set flags, change the page and show a notice).
  \<open>connectPending\<close> stands for \<^verbatim>\<open>connectResolve\<close>/\<^verbatim>\<open>connectReject\<close>
  being set. Two fields log the effects: \<open>transmitted\<close> is what was passed to
  \<^verbatim>\<open>ws.send\<close>, \<open>fired\<close> the callback invocations, both oldest first.
\<close>

record client =
  ws :: "readyState option"
  isConnected :: bool
  isPlaying :: bool
  isSetupComplete :: bool
  messageQueue :: "out_msg list"
  connectPending :: bool
  onAudioChunk :: "(nat list \<Rightarrow> outcome) option"
  onStateChange :: bool
  onError :: bool
  onClose :: bool
  currentConfig :: config
  currentPrompts :: "prompt list"
  transmitted :: "out_msg list"
  fired :: "callback_event list"

definition initialConfig :: config where
  "initialConfig = \<lparr>bpm = Val 120, density = Val (1 / 2), brightness = Val (1 / 2),
     scale = Val ''SCALE_UNSPECIFIED'', muteDrums = Val False, muteBass = Val False,
     onlyBassAndDrums = Val False, mode = Absent\<rparr>"

definition newClient :: client where
  "newClient = \<lparr>ws = None, isConnected = False, isPlaying = False,
     isSetupComplete = False, messageQueue = [], connectPending = False,
     onAudioChunk = None, onStateChange = False, onError = False, onClose = False,
     currentConfig = initialConfig, currentPrompts = [],
     transmitted = [], fired = []\<rparr>"

definition send :: "out_msg \<Rightarrow> client \<Rightarrow> bool \<times> client" where
  "send message s =
     (if ws s = Some OPEN
      then (True, s\<lparr>transmitted := transmitted s @ [message]\<rparr>)
      else (False, s\<lparr>messageQueue := messageQueue s @ [message]\<rparr>))"

text \<open>\<^verbatim>\<open>while (queue.length > 0) { m = queue.shift(); this.send(m) }\<close>. The loop need
  not end: \<open>None\<close> is the run that never returns.\<close>

partial_function (option) processQueue :: "client \<Rightarrow> client option" where
  "processQueue s =
     (if messageQueue s = [] then Some s
      else processQueue
             (snd (send (hd (messageQueue s)) (s\<lparr>messageQueue := tl (messageQueue s)\<rparr>))))"

fun normalizePrompt :: "prompt \<Rightarrow> weightedPrompt" where
  "normalizePrompt (PString p) = \<lparr>wp_text = Some p, wp_weight = 1\<rparr>"
| "normalizePrompt (PObject t w) =
     \<lparr>wp_text = t,
      wp_weight = (case w of None \<Rightarrow> 1 | Some x \<Rightarrow> if x = 0 then 1 else x)\<rparr>"

fun toArray :: "prompts_arg \<Rightarrow> prompt list" where
  "toArray (PArray ps) = ps"
| "toArray (PSingle p) = [p]"

definition setWeightedPrompts :: "prompts_arg \<Rightarrow> client \<Rightarrow> bool \<times> client" where
  "setWeightedPrompts prompts s =
     (let ps = toArray prompts;
          s1 = s\<lparr>currentPrompts := ps\<rparr>
      in send (ClientContent (map normalizePrompt ps)) s1)"

definition setMusicGenerationConfig :: "config \<Rightarrow> client \<Rightarrow> bool \<times> client" where
  "setMusicGenerationConfig c s =
     (let s1 = s\<lparr>currentConfig := spread (currentConfig s) c\<rparr>
      in send (MusicGenerationConfig (buildConfigObj c)) s1)"

definition notifyStateChange :: "string \<Rightarrow> client \<Rightarrow> client" where
  "notifyStateChange state s =
     (if onStateChange s then s\<lparr>fired := fired s @ [StateChangeEvent state]\<rparr> else s)"

definition notifyError :: "string \<Rightarrow> client \<Rightarrow> client" where
  "notifyError e s =
     (if onError s then s\<lparr>fired := fired s @ [ErrorEvent e]\<rparr> else s)"

subsection \<open>Inbound messages\<close>

text \<open>
  The value \<^verbatim>\<open>JSON.parse(data)\<close> returns, read the way \<^verbatim>\<open>handleMessage\<close>
  reads it. \<open>setupComplete\<close> says whether the key is there
  (\<^verbatim>\<open>!== undefined\<close>); \<open>filteredPrompt\<close> and \<open>warning\<close> whether the value is
  truthy; \<open>error_field\<close> is the truthy \<^verbatim>\<open>error\<close> object with its optional
  \<^verbatim>\<open>message\<close>; a chunk has an optional \<^verbatim>\<open>data\<close> string.
\<close>

record chunk =
  chunk_data :: "string option"

record server_content =
  audioChunks :: "chunk list option"
  generationState :: "string option"

record error_obj =
  error_message :: "string option"

record in_msg =
  setupComplete :: bool
  serverContent :: "server_content option"
  filteredPrompt :: bool
  warning :: bool
  error_field :: "error_obj option"

text \<open>
  \<^verbatim>\<open>base64ToArrayBuffer\<close>: the char codes of \<^verbatim>\<open>atob(base64)\<close>. The browser's
  \<^verbatim>\<open>atob\<close> is a parameter; \<open>None\<close> is its \<^verbatim>\<open>InvalidCharacterError\<close>.
\<close>

definition base64ToArrayBuffer :: "(string \<Rightarrow> string option) \<Rightarrow> string \<Rightarrow> nat list option" where
  "base64ToArrayBuffer atob base64 = map_option (map of_char) (atob base64)"

text \<open>
  The loop over the chunks. \<open>Inl\<close> is an exception leaving the loop (caught by the
  \<^verbatim>\<open>try\<close> around the whole body), with the state reached; \<open>Inr\<close> is the loop
  finished. The exception comes from \<^verbatim>\<open>atob\<close>, before the callback is called, or
  from the callback, after it was called. An empty \<^verbatim>\<open>data\<close> string is falsy.
\<close>

fun handleAudioChunks :: "(string \<Rightarrow> string option) \<Rightarrow> chunk list \<Rightarrow> client \<Rightarrow> client + client" where
  "handleAudioChunks atob [] s = Inr s"
| "handleAudioChunks atob (c # cs) s =
     (case chunk_data c of
        None \<Rightarrow> handleAudioChunks atob cs s
      | Some d \<Rightarrow>
          (case onAudioChunk s of
             None \<Rightarrow> handleAudioChunks atob cs s
           | Some callback \<Rightarrow>
               if d = [] then handleAudioChunks atob cs s
               else (case base64ToArrayBuffer atob d of
                       None \<Rightarrow> Inl s
                     | Some audioData \<Rightarrow>
                         (case callback audioData of
                            Throws \<Rightarrow> Inl (s\<lparr>fired := fired s @ [AudioChunkEvent audioData]\<rparr>)
                          | Returns \<Rightarrow>
                              handleAudioChunks atob cs
                                (s\<lparr>fired := fired s @ [AudioChunkEvent audioData]\<rparr>)))))"

definition handleGenerationState :: "string \<Rightarrow> client \<Rightarrow> client" where
  "handleGenerationState state s =
     (if state = ''PLAYING'' then notifyStateChange ''playing'' (s\<lparr>isPlaying := True\<rparr>)
      else if state = ''PAUSED'' then notifyStateChange ''paused'' (s\<lparr>isPlaying := False\<rparr>)
      else if state = ''STOPPED'' then notifyStateChange ''stopped'' (s\<lparr>isPlaying := False\<rparr>)
      else s)"

text \<open>\<^verbatim>\<open>message.serverContent?.audioChunks\<close> and
  \<^verbatim>\<open>message.serverContent?.generationState\<close>.\<close>

definition chunksOf :: "in_msg \<Rightarrow> chunk list option" where
  "chunksOf message = (case serverContent message of None \<Rightarrow> None | Some sc \<Rightarrow> audioChunks sc)"

definition stateOf :: "in_msg \<Rightarrow> string option" where
  "stateOf message = (case serverContent message of None \<Rightarrow> None | Some sc \<Rightarrow> generationState sc)"

text \<open>The part of the body after the setup branch, from the generation state on.\<close>

definition handleRest :: "in_msg \<Rightarrow> client \<Rightarrow> client" where
  "handleRest message s =
     (let s1 = (case stateOf message of
                  None \<Rightarrow> s
                | Some state \<Rightarrow> if state \<noteq> [] then handleGenerationState state s else s);
          s2 = (if filteredPrompt message
                then notifyError ''Prompt was filtered by safety system'' s1 else s1);
          s3 = (case error_field message of
                  None \<Rightarrow> s2
                | Some e \<Rightarrow>
                    notifyError
                      (case error_message e of
                         None \<Rightarrow> ''Server error''
                       | Some m \<Rightarrow> if m \<noteq> [] then m else ''Server error'') s2)
      in s3)"

text \<open>
  \<^verbatim>\<open>handleMessage(data)\<close>. The argument is the parsed message, \<open>None\<close> when
  \<^verbatim>\<open>JSON.parse\<close> throws or yields no object: the \<^verbatim>\<open>catch\<close> logs and returns.
  The result is \<open>None\<close> when the call does not return (the queue loop). An
  exception from the chunk loop ends the body in the \<^verbatim>\<open>catch\<close>, which logs
  and returns.
\<close>

definition handleMessage :: "(string \<Rightarrow> string option) \<Rightarrow> in_msg option \<Rightarrow> client \<Rightarrow> client option" where
  "handleMessage atob data s =
     (case data of
        None \<Rightarrow> Some s
      | Some message \<Rightarrow>
          if setupComplete message
          then (case processQueue (notifyStateChange ''connected'' (s\<lparr>isSetupComplete := True\<rparr>)) of
                  None \<Rightarrow> None
                | Some s1 \<Rightarrow>
                    Some (if connectPending s1 then s1\<lparr>connectPending := False\<rparr> else s1))
          else (case (case chunksOf message of
                        None \<Rightarrow> Inr s
                      | Some cs \<Rightarrow> handleAudioChunks atob cs s) of
                  Inl s1 \<Rightarrow> Some s1
                | Inr s1 \<Rightarrow> Some (handleRest message s1)))"

subsection \<open>What a call hands to the transport\<close>

text \<open>The messages a call added, to the wire or to the queue.\<close>

definition outbound :: "(client \<Rightarrow> bool \<times> client) \<Rightarrow> client \<Rightarrow> out_msg list" where
  "outbound call s =
     drop (length (transmitted s)) (transmitted (snd (call s))) @
     drop (length (messageQueue s)) (messageQueue (snd (call s)))"

definition noConfig :: config where
  "noConfig = \<lparr>bpm = Absent, density = Absent, brightness = Absent, scale = Absent,
     muteDrums = Absent, muteBass = Absent, onlyBassAndDrums = Absent, mode = Absent\<rparr>"


definition bpmOnly :: config where
  "bpmOnly = noConfig\<lparr>bpm := Val 140\<rparr>"

definition openClient :: client where
  "openClient = newClient\<lparr>ws := Some OPEN, isConnected := True\<rparr>"

definition threePrompts :: prompts_arg where
  "threePrompts = PArray [PObject (Some ''djembe'') (Some 0),
                          PObject (Some ''kora'') (Some (3 / 10)),
                          PString ''balafon'']"

subsection \<open>Opening the connection\<close>

definition LYRIA_MODEL :: string where
  "LYRIA_MODEL = ''models/lyria-realtime-exp''"

definition sendSetupMessage :: "client \<Rightarrow> client" where
  "sendSetupMessage s = snd (send (Setup LYRIA_MODEL) s)"

text \<open>\<^verbatim>\<open>connect()\<close> up to the creation of the socket, and the \<^verbatim>\<open>onopen\<close>
  handler it installs, run when the socket has opened.\<close>

definition connect :: "client \<Rightarrow> client" where
  "connect s = s\<lparr>connectPending := True, ws := Some CONNECTING\<rparr>"

definition onopen :: "client \<Rightarrow> client" where
  "onopen s =
     sendSetupMessage (notifyStateChange ''connecting'' (s\<lparr>ws := Some OPEN, isConnected := True\<rparr>))"

subsection \<open>The callbacks a message should fire, field by field\<close>








text \<open>A table standing for \<^verbatim>\<open>atob\<close> on the inputs used below: three zero bytes,
  eight zero bytes, and the bytes 1 to 8. Any other string, such as
  \<^verbatim>\<open>"!!!!"\<close>, is not base64.\<close>

definition atobTable :: "string \<Rightarrow> string option" where
  "atobTable b =
     (if b = ''AAAA'' then Some (map char_of [0, 0, 0 :: nat])
      else if b = ''AAAAAAAAAAA='' then Some (map char_of [0, 0, 0, 0, 0, 0, 0, 0 :: nat])
      else if b = ''AQIDBAUGBwg='' then Some (map char_of [1, 2, 3, 4, 5, 6, 7, 8 :: nat])
      else None)"

definition setupAck :: in_msg where
  "setupAck = \<lparr>setupComplete = True, serverContent = None,
     filteredPrompt = False, warning = False, error_field = None\<rparr>"

text \<open>Two calls made before the socket exists, then the socket opens.\<close>

definition queuedThenOpened :: client where
  "queuedThenOpened =
     onopen (connect (snd (setMusicGenerationConfig bpmOnly
                        (snd (setWeightedPrompts (PSingle (PString ''balafon'')) newClient)))))"

section \<open>Streaming playback scheduler: \<^verbatim>\<open>audio-player.js\<close>\<close>

text \<open>
  Times on the audio clock, durations and gain values are \<^typ>\<open>real\<close>. The Web
  Audio objects are outside the program: what the player does to them is logged,
  oldest call first. A buffer source is named by the number of sources created
  before it.
\<close>

datatype audio_call =
    SourceConnect nat
  | SourceStart nat real
  | SourceStop nat
  | SourceDisconnect nat
  | GainCancelScheduledValues real
  | GainSetValueAtTime real real
  | GainLinearRampToValueAtTime real real

text \<open>An entry of \<^verbatim>\<open>scheduledBuffers\<close>.\<close>

record scheduled =
  source :: nat
  endTime :: real

text \<open>
  The player. \<open>audioContext\<close> and \<open>gainNode\<close> say whether the field is set.
  \<open>stopTimeout\<close> is \<^verbatim>\<open>this._stopTimeout\<close>, a timer handle. The last four fields
  are the surroundings: how many sources and timers were created, the timeouts
  set and neither run nor cleared (handle and delay in milliseconds), and the
  log of calls. The only timeout the player sets is the teardown of \<^verbatim>\<open>stop\<close>.
\<close>

record player =
  audioContext :: bool
  gainNode :: bool
  audioQueue :: "nat list list"
  nextStartTime :: real
  scheduledBuffers :: "scheduled list"
  isStopping :: bool
  stopTimeout :: "nat option"
  sourcesCreated :: nat
  timersSet :: nat
  pendingTimers :: "(nat \<times> real) list"
  calls :: "audio_call list"

definition sampleRate :: nat where
  "sampleRate = 48000"

definition channels :: nat where
  "channels = 2"

definition newPlayer :: player where
  "newPlayer = \<lparr>audioContext = False, gainNode = False, audioQueue = [],
     nextStartTime = 0, scheduledBuffers = [], isStopping = False, stopTimeout = None,
     sourcesCreated = 0, timersSet = 0, pendingTimers = [], calls = []\<rparr>"

definition init :: "player \<Rightarrow> player" where
  "init s = (if audioContext s then s else s\<lparr>audioContext := True, gainNode := True\<rparr>)"

text \<open>The lead-in added when the stream has stalled: \<^verbatim>\<open>0.05\<close> seconds.\<close>

definition leadIn :: real where
  "leadIn = 5 / 100"

text \<open>\<^verbatim>\<open>cleanupBuffers(currentTime)\<close>: an entry whose end time is before
  \<open>currentTime\<close> is disconnected and dropped, the others stay in order.\<close>

definition cleanupBuffers :: "real \<Rightarrow> player \<Rightarrow> player" where
  "cleanupBuffers currentTime s =
     s\<lparr>scheduledBuffers := filter (\<lambda>item. \<not> endTime item < currentTime) (scheduledBuffers s),
       calls := calls s @
         map (\<lambda>item. SourceDisconnect (source item))
             (filter (\<lambda>item. endTime item < currentTime) (scheduledBuffers s))\<rparr>"

text \<open>
  \<^verbatim>\<open>scheduleBuffer(audioBuffer)\<close> in two parts: \<open>trackBuffer\<close> is the body up to
  the push onto \<^verbatim>\<open>scheduledBuffers\<close>, then comes the cleanup. The buffer is given
  by its \<^verbatim>\<open>duration\<close>; \<open>currentTime\<close> is the reading of
  \<^verbatim>\<open>audioContext.currentTime\<close>.
\<close>

definition trackBuffer :: "real \<Rightarrow> real \<Rightarrow> player \<Rightarrow> player" where
  "trackBuffer duration currentTime s =
     (let start = (if nextStartTime s < currentTime then currentTime + leadIn
                   else nextStartTime s);
          src = sourcesCreated s
      in s\<lparr>sourcesCreated := Suc src,
           calls := calls s @ [SourceConnect src, SourceStart src start],
           nextStartTime := start + duration,
           scheduledBuffers := scheduledBuffers s @ [\<lparr>source = src, endTime = start + duration\<rparr>]\<rparr>)"

definition scheduleBuffer :: "real \<Rightarrow> real \<Rightarrow> player \<Rightarrow> player" where
  "scheduleBuffer duration currentTime s = cleanupBuffers currentTime (trackBuffer duration currentTime s)"

text \<open>
  \<^verbatim>\<open>processAudioChunk(pcmData)\<close>, the chunk given as its bytes. \<^verbatim>\<open>new
  Int16Array(pcmData)\<close> throws a \<^verbatim>\<open>RangeError\<close> on an odd byte length, and
  \<^verbatim>\<open>createBuffer\<close> a \<^verbatim>\<open>NotSupportedError\<close> on zero frames; the frame count is
  the sample count halved and truncated. The buffer's duration is its frame count
  over the sample rate. The sample values play no part in scheduling and are not
  modelled. \<open>Inl\<close> is an exception leaving the call, with the state reached.
\<close>

datatype exn = RangeError | NotSupportedError

definition processAudioChunk :: "nat list \<Rightarrow> real \<Rightarrow> player \<Rightarrow> (exn \<times> player) + player" where
  "processAudioChunk pcmData currentTime s =
     (if \<not> audioContext s \<or> isStopping s then Inr s
      else if odd (length pcmData) then Inl (RangeError, s)
      else let int16Length = length pcmData div 2;
               numSamples = int16Length div channels
           in if numSamples = 0 then Inl (NotSupportedError, s)
              else Inr (scheduleBuffer (real numSamples / real sampleRate) currentTime s))"

text \<open>
  \<^verbatim>\<open>stop(fadeDuration)\<close>. \<open>now\<close> is the reading of the audio clock and
  \<open>gainValue\<close> that of \<^verbatim>\<open>gainNode.gain.value\<close>. \<^verbatim>\<open>setTimeout\<close> returns a fresh
  positive handle.
\<close>

definition stop :: "real \<Rightarrow> real \<Rightarrow> real \<Rightarrow> player \<Rightarrow> player" where
  "stop fadeDuration now gainValue s =
     (if \<not> audioContext s \<or> \<not> gainNode s then s
      else let handle = Suc (timersSet s)
           in s\<lparr>isStopping := True,
                calls := calls s @ [GainCancelScheduledValues now,
                                    GainSetValueAtTime gainValue now,
                                    GainLinearRampToValueAtTime 0 (now + fadeDuration)],
                timersSet := handle,
                pendingTimers := pendingTimers s @ [(handle, fadeDuration * 1000)],
                stopTimeout := Some handle\<rparr>)"

text \<open>The calls that stop and disconnect every tracked source, and those that
  restore the gain, made only while gain node and context are both set.\<close>

definition releaseCalls :: "player \<Rightarrow> audio_call list" where
  "releaseCalls s =
     concat (map (\<lambda>item. [SourceStop (source item), SourceDisconnect (source item)])
                 (scheduledBuffers s))"

definition restoreGainCalls :: "real \<Rightarrow> player \<Rightarrow> audio_call list" where
  "restoreGainCalls now s =
     (if gainNode s \<and> audioContext s
      then [GainCancelScheduledValues now, GainSetValueAtTime 1 now] else [])"

text \<open>The callback \<^verbatim>\<open>stop\<close> hands to \<^verbatim>\<open>setTimeout\<close>, run at clock reading
  \<open>now\<close>.\<close>

definition stopTeardown :: "real \<Rightarrow> player \<Rightarrow> player" where
  "stopTeardown now s =
     s\<lparr>calls := calls s @ releaseCalls s @ restoreGainCalls now s,
       scheduledBuffers := [],
       nextStartTime := 0,
       audioQueue := [],
       isStopping := False\<rparr>"

text \<open>A pending timeout runs its callback once; \<^verbatim>\<open>clearTimeout\<close> removes it.\<close>

definition timerFires :: "nat \<Rightarrow> real \<Rightarrow> player \<Rightarrow> player" where
  "timerFires handle now s =
     (if handle \<in> fst ` set (pendingTimers s)
      then stopTeardown now (s\<lparr>pendingTimers := filter (\<lambda>t. fst t \<noteq> handle) (pendingTimers s)\<rparr>)
      else s)"

definition clearTimeout :: "nat \<Rightarrow> player \<Rightarrow> player" where
  "clearTimeout handle s = s\<lparr>pendingTimers := filter (\<lambda>t. fst t \<noteq> handle) (pendingTimers s)\<rparr>"

definition hardStop :: "real \<Rightarrow> player \<Rightarrow> player" where
  "hardStop now s =
     (let s1 = (case stopTimeout s of
                  None \<Rightarrow> s
                | Some handle \<Rightarrow> (clearTimeout handle s)\<lparr>stopTimeout := None\<rparr>);
          s2 = s1\<lparr>isStopping := False\<rparr>
      in s2\<lparr>calls := calls s2 @ releaseCalls s2 @ restoreGainCalls now s2,
            scheduledBuffers := [],
            nextStartTime := 0,
            audioQueue := []\<rparr>)"

subsection \<open>Runs of submissions\<close>

text \<open>Chunks submitted one after another, each with the clock reading at its
  submission; an exception ends the run.\<close>

fun submitAll :: "(nat list \<times> real) list \<Rightarrow> player \<Rightarrow> (exn \<times> player) + player" where
  "submitAll [] s = Inr s"
| "submitAll ((pcmData, currentTime) # rest) s =
     (case processAudioChunk pcmData currentTime s of
        Inl e \<Rightarrow> Inl e
      | Inr s' \<Rightarrow> submitAll rest s')"

text \<open>The start times handed to \<^verbatim>\<open>source.start\<close>, oldest first.\<close>

fun startTimes :: "audio_call list \<Rightarrow> real list" where
  "startTimes [] = []"
| "startTimes (SourceStart src t # cs) = t # startTimes cs"
| "startTimes (c # cs) = startTimes cs"

text \<open>
  The segments a run of buffers produces, each as the start time handed to
  \<^verbatim>\<open>source.start\<close> and the end time recorded with it. A buffer is given as the
  clock reading at its submission and its duration.
\<close>

fun segments :: "(real \<times> real) list \<Rightarrow> player \<Rightarrow> (real \<times> real) list" where
  "segments [] s = []"
| "segments ((currentTime, duration) # rest) s =
     (let tracked = trackBuffer duration currentTime s
      in (last (startTimes (calls tracked)), endTime (last (scheduledBuffers tracked)))
         # segments rest (cleanupBuffers currentTime tracked))"

fun scheduleAll :: "(real \<times> real) list \<Rightarrow> player \<Rightarrow> player" where
  "scheduleAll [] s = s"
| "scheduleAll ((currentTime, duration) # rest) s =
     scheduleAll rest (scheduleBuffer duration currentTime s)"

text \<open>Concrete runs used below: three buffers of a tenth of a second, the third
  submitted after the stream has run dry; a chunk of two stereo frames; a fade
  begun while another is in progress; and a fade begun with two segments
  tracked.\<close>

definition threeBuffers :: "(real \<times> real) list" where
  "threeBuffers = [(0, 1 / 10), (5 / 100, 1 / 10), (1, 1 / 10)]"

definition twoFrames :: "nat list" where
  "twoFrames = [0, 0, 0, 0, 0, 0, 0, 0]"

definition firstFade :: player where
  "firstFade = stop (1 / 2) 0 1 (init newPlayer)"

definition secondFade :: player where
  "secondFade = stop 2 (4 / 10) (2 / 10) firstFade"

definition twoTracked :: player where
  "twoTracked = scheduleAll (take 2 threeBuffers) (init newPlayer)"

definition fadingOut :: player where
  "fadingOut = stop (1 / 2) (3 / 10) 1 twoTracked"

section \<open>Parameter mappings: \<^verbatim>\<open>midi-manager.js\<close>\<close>

text \<open>
  A mapping is \<^verbatim>\<open>{channel, cc}\<close>, both numbers of a MIDI message. The object
  \<^verbatim>\<open>this.mappings\<close> is a list of key and value in insertion order, as
  \<^verbatim>\<open>Object.entries\<close> yields it for keys that are not array indices (the keys
  are ids of sliders): assigning to a key that is there replaces its value in
  place, to a new key appends, \<^verbatim>\<open>delete\<close> removes the key.
\<close>

record mapping =
  channel :: nat
  cc :: nat

type_synonym mappings = "(string \<times> mapping) list"

text \<open>What \<^verbatim>\<open>localStorage\<close> holds under the storage key: nothing (or the empty
  string), text that does not parse to an object of mappings, or the entries of
  the parsed object.\<close>

datatype stored = NoItem | Malformed | Entries mappings

text \<open>The manager: the mappings, the parameter being learned, whether a
  learn-complete callback is set, the stored item, and the log of learn-complete
  notifications.\<close>

record midiManager =
  mappings :: mappings
  learning :: "string option"
  onLearnComplete :: bool
  storage :: stored
  learnCompleted :: "(string \<times> nat \<times> nat) list"

text \<open>
  The loop of \<^verbatim>\<open>loadMappings\<close> over the stored entries. \<open>seen\<close> is the
  \<^verbatim>\<open>Map\<close> from the key \<^verbatim>\<open>`${channel}:${cc}`\<close> to the parameter that last
  had it; the key is modelled by the pair, which the string determines and which
  determines the string.
\<close>

fun loadLoop :: "mappings \<Rightarrow> (nat \<times> nat \<rightharpoonup> string) \<Rightarrow> mappings \<Rightarrow> mappings" where
  "loadLoop [] seen m = m"
| "loadLoop ((sliderId, mp) # rest) seen m =
     (let key = (channel mp, cc mp);
          m1 = (case seen key of None \<Rightarrow> m | Some older \<Rightarrow> AList.delete older m)
      in loadLoop rest (seen(key \<mapsto> sliderId)) (AList.update sliderId mp m1))"

definition loadMappings :: "midiManager \<Rightarrow> midiManager" where
  "loadMappings s =
     (case storage s of
        NoItem \<Rightarrow> s
      | Malformed \<Rightarrow> s\<lparr>mappings := []\<rparr>
      | Entries parsed \<Rightarrow> s\<lparr>mappings := loadLoop parsed Map.empty []\<rparr>)"

definition saveMappings :: "midiManager \<Rightarrow> midiManager" where
  "saveMappings s = s\<lparr>storage := Entries (mappings s)\<rparr>"

text \<open>The constructor: empty mappings, then \<^verbatim>\<open>loadMappings\<close>.\<close>

definition newMidiManager :: "stored \<Rightarrow> midiManager" where
  "newMidiManager item =
     loadMappings \<lparr>mappings = [], learning = None, onLearnComplete = False,
                   storage = item, learnCompleted = []\<rparr>"

text \<open>The first loop of \<^verbatim>\<open>assignMapping\<close>, over the entries as they were when
  the loop began.\<close>

fun removeConflicts :: "mappings \<Rightarrow> string \<Rightarrow> nat \<Rightarrow> nat \<Rightarrow> mappings \<Rightarrow> mappings" where
  "removeConflicts [] sliderId ch c m = m"
| "removeConflicts ((id', mp) # rest) sliderId ch c m =
     removeConflicts rest sliderId ch c
       (if cc mp = c \<and> channel mp = ch \<and> id' \<noteq> sliderId then AList.delete id' m else m)"

definition assignMapping :: "string \<Rightarrow> nat \<Rightarrow> nat \<Rightarrow> midiManager \<Rightarrow> midiManager" where
  "assignMapping sliderId ch c s =
     (let m1 = removeConflicts (mappings s) sliderId ch c (mappings s);
          s1 = s\<lparr>mappings := AList.update sliderId \<lparr>channel = ch, cc = c\<rparr> m1, learning := None\<rparr>;
          s2 = saveMappings s1
      in if onLearnComplete s2
         then s2\<lparr>learnCompleted := learnCompleted s2 @ [(sliderId, c, ch)]\<rparr> else s2)"

definition clearMapping :: "string \<Rightarrow> midiManager \<Rightarrow> midiManager" where
  "clearMapping sliderId s = saveMappings (s\<lparr>mappings := AList.delete sliderId (mappings s)\<rparr>)"

definition clearAllMappings :: "midiManager \<Rightarrow> midiManager" where
  "clearAllMappings s = saveMappings (s\<lparr>mappings := []\<rparr>)"

subsection \<open>The conflict policy in the specification's words\<close>

text \<open>
  Of the stored entries, one is kept exactly when no later entry has the same
  channel and controller: the most recently assigned parameter wins.
\<close>

fun keepLast :: "mappings \<Rightarrow> mappings" where
  "keepLast [] = []"
| "keepLast ((k, v) # rest) =
     (if list_ex (\<lambda>(k', v'). channel v' = channel v \<and> cc v' = cc v) rest
      then keepLast rest else (k, v) # keepLast rest)"

text \<open>No two parameters are mapped to the same channel and controller.\<close>

definition uniqueCC :: "mappings \<Rightarrow> bool" where
  "uniqueCC m = distinct (map (\<lambda>(k, v). (channel v, cc v)) m)"

text \<open>Concrete stored entries: two parameters on channel 1, controller 20.\<close>

definition storedTwice :: mappings where
  "storedTwice = [(''bpmSlider'', \<lparr>channel = 1, cc = 20\<rparr>),
                  (''densitySlider'', \<lparr>channel = 0, cc = 7\<rparr>),
                  (''brightnessSlider'', \<lparr>channel = 1, cc = 20\<rparr>)]"

definition loadedTwice :: midiManager where
  "loadedTwice = newMidiManager (Entries storedTwice)"

text \<open>The \<^verbatim>\<open>Map\<close> of \<^verbatim>\<open>loadMappings\<close> after its loop has gone through the
  entries \<open>xs\<close>: each pair seen, with the parameter that had it last.\<close>

definition seenAfter :: "mappings \<Rightarrow> (nat \<times> nat \<rightharpoonup> string)" where
  "seenAfter xs = map_of (rev (map (\<lambda>(k, v). ((channel v, cc v), k)) xs))"

section \<open>The application's audio callback and messages for it\<close>







section \<open>Properties of the session protocol\<close>

subsection \<open>Configuration updates\<close>

lemma outbound_send: "outbound (send m) s = [m]"
  by (simp add: outbound_def send_def)














subsection \<open>Prompt weights\<close>

lemma outbound_setWeightedPrompts:
  "outbound (setWeightedPrompts prompts) s = [ClientContent (map normalizePrompt (toArray prompts))]"
  by (simp add: outbound_def setWeightedPrompts_def send_def Let_def)

text \<open>
  Claim C10. The message \<^verbatim>\<open>setWeightedPrompts\<close> hands to the transport has one
  entry for each prompt of an array, in order, and one entry for a prompt passed
  on its own. The entry of a bare string has the string as text and weight 1;
  the entry of an object has the object's text, and weight 1 when the object has
  no weight or weight 0, else the object's weight.
\<close>

theorem setWeightedPrompts_weight:
  "\<exists>wps. outbound (setWeightedPrompts prompts) s = [ClientContent wps]
     \<and> (case prompts of
           PArray ps \<Rightarrow>
             length wps = length ps
             \<and> (\<forall>i < length ps.
                   (case ps ! i of
                      PString x \<Rightarrow> wp_weight (wps ! i) = 1 \<and> wp_text (wps ! i) = Some x
                    | PObject t None \<Rightarrow> wp_weight (wps ! i) = 1 \<and> wp_text (wps ! i) = t
                    | PObject t (Some w) \<Rightarrow>
                        wp_weight (wps ! i) = (if w = 0 then 1 else w) \<and> wp_text (wps ! i) = t))
         | PSingle p \<Rightarrow>
             length wps = 1
             \<and> (case p of
                   PString x \<Rightarrow> wp_weight (wps ! 0) = 1 \<and> wp_text (wps ! 0) = Some x
                 | PObject t None \<Rightarrow> wp_weight (wps ! 0) = 1 \<and> wp_text (wps ! 0) = t
                 | PObject t (Some w) \<Rightarrow>
                     wp_weight (wps ! 0) = (if w = 0 then 1 else w) \<and> wp_text (wps ! 0) = t))"
proof (cases prompts)
  case (PArray ps)
  let ?wps = "map normalizePrompt ps"
  have "\<forall>i < length ps.
          (case ps ! i of
             PString x \<Rightarrow> wp_weight (?wps ! i) = 1 \<and> wp_text (?wps ! i) = Some x
           | PObject t None \<Rightarrow> wp_weight (?wps ! i) = 1 \<and> wp_text (?wps ! i) = t
           | PObject t (Some w) \<Rightarrow>
               wp_weight (?wps ! i) = (if w = 0 then 1 else w) \<and> wp_text (?wps ! i) = t)"
    by (simp split: prompt.splits option.splits)
  then show ?thesis
    using PArray outbound_setWeightedPrompts [of prompts s] by (intro exI [of _ ?wps]) simp
next
  case (PSingle p)
  let ?wps = "[normalizePrompt p]"
  show ?thesis
    using PSingle outbound_setWeightedPrompts [of prompts s]
    by (intro exI [of _ ?wps]) (simp split: prompt.splits option.splits)
qed

text \<open>
  In an array, weight 0 is sent as 1, weight 0.3 as 0.3, a bare string with
  weight 1; an object passed on its own with weight 0.3 is sent as one entry with
  weight 0.3, one with weight 0 as one entry with weight 1.
\<close>

theorem setWeightedPrompts_weight_witness:
  "(\<exists>wps. outbound (setWeightedPrompts threePrompts) newClient = [ClientContent wps]
      \<and> length wps = 3
      \<and> wp_weight (wps ! 0) = 1 \<and> wp_weight (wps ! 1) = 3 / 10 \<and> wp_weight (wps ! 2) = 1)
   \<and> (\<exists>wps. outbound (setWeightedPrompts (PSingle (PObject (Some ''kora'') (Some (3 / 10))))) newClient
             = [ClientContent wps]
      \<and> length wps = 1 \<and> wp_weight (wps ! 0) = 3 / 10 \<and> wp_text (wps ! 0) = Some ''kora'')
   \<and> (\<exists>wps. outbound (setWeightedPrompts (PSingle (PObject (Some ''djembe'') (Some 0)))) newClient
             = [ClientContent wps]
      \<and> length wps = 1 \<and> wp_weight (wps ! 0) = 1)"
proof -
  from setWeightedPrompts_weight [of threePrompts newClient]
  obtain wps where out: "outbound (setWeightedPrompts threePrompts) newClient = [ClientContent wps]"
    and len: "length wps = 3"
    and w: "\<forall>i < 3.
           (case [PObject (Some ''djembe'') (Some 0), PObject (Some ''kora'') (Some (3 / 10)),
                  PString ''balafon''] ! i of
              PString x \<Rightarrow> wp_weight (wps ! i) = 1 \<and> wp_text (wps ! i) = Some x
            | PObject t None \<Rightarrow> wp_weight (wps ! i) = 1 \<and> wp_text (wps ! i) = t
            | PObject t (Some w) \<Rightarrow>
                wp_weight (wps ! i) = (if w = 0 then 1 else w) \<and> wp_text (wps ! i) = t)"
    unfolding threePrompts_def by auto
  from w [rule_format, of 0] have "wp_weight (wps ! 0) = 1" by simp
  moreover from w [rule_format, of 1] have "wp_weight (wps ! 1) = 3 / 10" by simp
  moreover from w [rule_format, of 2] have "wp_weight (wps ! 2) = 1" by simp
  ultimately have 1: "\<exists>wps. outbound (setWeightedPrompts threePrompts) newClient = [ClientContent wps]
      \<and> length wps = 3
      \<and> wp_weight (wps ! 0) = 1 \<and> wp_weight (wps ! 1) = 3 / 10 \<and> wp_weight (wps ! 2) = 1"
    using out len by blast
  from setWeightedPrompts_weight [of "PSingle (PObject (Some ''kora'') (Some (3 / 10)))" newClient]
  have 2: "\<exists>wps. outbound (setWeightedPrompts (PSingle (PObject (Some ''kora'') (Some (3 / 10))))) newClient
             = [ClientContent wps]
      \<and> length wps = 1 \<and> wp_weight (wps ! 0) = 3 / 10 \<and> wp_text (wps ! 0) = Some ''kora''"
    by simp
  from setWeightedPrompts_weight [of "PSingle (PObject (Some ''djembe'') (Some 0))" newClient]
  have 3: "\<exists>wps. outbound (setWeightedPrompts (PSingle (PObject (Some ''djembe'') (Some 0)))) newClient
             = [ClientContent wps]
      \<and> length wps = 1 \<and> wp_weight (wps ! 0) = 1"
    by auto
  from 1 2 3 show ?thesis by blast
qed

subsection \<open>Sending and the queue\<close>

lemma processQueue_open:
  "ws s = Some OPEN \<Longrightarrow> messageQueue s = q \<Longrightarrow>
   processQueue s = Some (s\<lparr>messageQueue := [], transmitted := transmitted s @ q\<rparr>)"
proof (induction q arbitrary: s)
  case Nil
  then show ?case by (subst processQueue.simps) simp
next
  case (Cons m q)
  define s1 where "s1 = s\<lparr>messageQueue := q, transmitted := transmitted s @ [m]\<rparr>"
  have "processQueue s = processQueue s1"
    using Cons.prems by (subst processQueue.simps) (simp add: send_def s1_def)
  moreover have "processQueue s1 = Some (s1\<lparr>messageQueue := [], transmitted := transmitted s1 @ q\<rparr>)"
    using Cons.prems by (intro Cons.IH) (simp_all add: s1_def)
  ultimately show ?case by (simp add: s1_def)
qed

text \<open>With the socket not open, \<^verbatim>\<open>send\<close> puts each message taken from the queue
  back: on a queue that is not empty the loop never returns.\<close>

lemma processQueue_returns:
  assumes a: "processQueue s = Some s'"
  shows "ws s = Some OPEN \<or> messageQueue s = []"
proof (rule processQueue.raw_induct [where P = "\<lambda>s s'. ws s = Some OPEN \<or> messageQueue s = []", OF _ a])
  fix f :: "client \<Rightarrow> client option" and s s' :: client
  assume IH: "\<And>x y. f x = Some y \<Longrightarrow> ws x = Some OPEN \<or> messageQueue x = []"
    and step: "(if messageQueue s = [] then Some s
      else f (snd (send (hd (messageQueue s)) (s\<lparr>messageQueue := tl (messageQueue s)\<rparr>)))) = Some s'"
  show "ws s = Some OPEN \<or> messageQueue s = []"
  proof (rule ccontr)
    assume neg: "\<not> (ws s = Some OPEN \<or> messageQueue s = [])"
    let ?s1 = "snd (send (hd (messageQueue s)) (s\<lparr>messageQueue := tl (messageQueue s)\<rparr>))"
    from neg step have "f ?s1 = Some s'" by simp
    then have "ws ?s1 = Some OPEN \<or> messageQueue ?s1 = []" by (rule IH)
    with neg show False by (simp add: send_def)
  qed
qed

lemma processQueue_closed:
  "ws s \<noteq> Some OPEN \<Longrightarrow> messageQueue s \<noteq> [] \<Longrightarrow> processQueue s = None"
  using processQueue_returns [of s] by (cases "processQueue s") auto

lemma handleMessage_setup_open:
  assumes "setupComplete ack" and "ws s = Some OPEN"
  shows "handleMessage atob (Some ack) s =
           Some (s\<lparr>isSetupComplete := True,
                   fired := fired s @ (if onStateChange s then [StateChangeEvent ''connected''] else []),
                   messageQueue := [],
                   transmitted := transmitted s @ messageQueue s,
                   connectPending := False\<rparr>)"
proof -
  let ?s0 = "notifyStateChange ''connected'' (s\<lparr>isSetupComplete := True\<rparr>)"
  have "processQueue ?s0 =
          Some (?s0\<lparr>messageQueue := [], transmitted := transmitted ?s0 @ messageQueue s\<rparr>)"
    using assms(2) by (intro processQueue_open) (simp_all add: notifyStateChange_def)
  then show ?thesis
    using assms(1) by (simp add: handleMessage_def notifyStateChange_def)
qed

text \<open>
  Claim C2, as the code has it. \<^verbatim>\<open>send\<close> looks at the transport only: it
  transmits and returns true exactly when the socket is open, whatever the
  handshake flag says, and otherwise appends to the queue and returns false.
  When a setup acknowledgement is handled on an open socket, the call returns,
  the queued messages have been transmitted in their order after what was
  transmitted before, and the queue is empty.
\<close>

theorem send_gated_on_transport:
  "fst (send m s) = (ws s = Some OPEN)
   \<and> (ws s = Some OPEN \<longrightarrow>
        transmitted (snd (send m s)) = transmitted s @ [m]
        \<and> messageQueue (snd (send m s)) = messageQueue s)
   \<and> (ws s \<noteq> Some OPEN \<longrightarrow>
        messageQueue (snd (send m s)) = messageQueue s @ [m]
        \<and> transmitted (snd (send m s)) = transmitted s)
   \<and> (setupComplete ack \<and> ws s = Some OPEN \<longrightarrow>
        (\<exists>s'. handleMessage atob (Some ack) s = Some s'
           \<and> transmitted s' = transmitted s @ messageQueue s
           \<and> messageQueue s' = [] \<and> isSetupComplete s'))"
proof (intro conjI impI)
  show "fst (send m s) = (ws s = Some OPEN)" by (simp add: send_def)
next
  assume "ws s = Some OPEN"
  then show "transmitted (snd (send m s)) = transmitted s @ [m]"
    and "messageQueue (snd (send m s)) = messageQueue s" by (simp_all add: send_def)
next
  assume "ws s \<noteq> Some OPEN"
  then show "messageQueue (snd (send m s)) = messageQueue s @ [m]"
    and "transmitted (snd (send m s)) = transmitted s" by (simp_all add: send_def)
next
  assume "setupComplete ack \<and> ws s = Some OPEN"
  then show "\<exists>s'. handleMessage atob (Some ack) s = Some s'
           \<and> transmitted s' = transmitted s @ messageQueue s
           \<and> messageQueue s' = [] \<and> isSetupComplete s'"
    by (simp add: handleMessage_setup_open)
qed

text \<open>
  Claim C2 as stated fails: on an open socket whose handshake is not complete,
  \<^verbatim>\<open>send\<close> transmits at once and queues nothing.
\<close>

theorem send_before_handshake_transmits:
  "isSetupComplete openClient = False
   \<and> send (PlaybackControl ''PLAY'') openClient
       = (True, openClient\<lparr>transmitted := [PlaybackControl ''PLAY'']\<rparr>)"
  by (simp add: send_def openClient_def newClient_def)

lemma queuedThenOpened_eq:
  "queuedThenOpened =
     newClient\<lparr>ws := Some OPEN, isConnected := True, connectPending := True,
       currentPrompts := [PString ''balafon''],
       currentConfig := spread initialConfig bpmOnly,
       messageQueue := [ClientContent [\<lparr>wp_text = Some ''balafon'', wp_weight = 1\<rparr>],
                        MusicGenerationConfig (buildConfigObj bpmOnly)],
       transmitted := [Setup LYRIA_MODEL]\<rparr>"
  by (simp add: queuedThenOpened_def onopen_def connect_def sendSetupMessage_def
        setMusicGenerationConfig_def setWeightedPrompts_def send_def notifyStateChange_def
        newClient_def Let_def)

text \<open>
  Prompts and a configuration submitted before the socket exists are queued; the
  socket opens and the setup message goes out; the acknowledgement then flushes
  the two queued messages in the order they were submitted.
\<close>

theorem send_gated_on_transport_witness:
  "ws queuedThenOpened = Some OPEN \<and> setupComplete setupAck
   \<and> fst (send (PlaybackControl ''PLAY'') queuedThenOpened)
   \<and> fst (send (PlaybackControl ''PLAY'') newClient) = False
   \<and> messageQueue (snd (send (PlaybackControl ''PLAY'') newClient)) = [PlaybackControl ''PLAY'']
   \<and> (\<exists>s'. handleMessage atobTable (Some setupAck) queuedThenOpened = Some s'
         \<and> transmitted s' = [Setup LYRIA_MODEL,
                              ClientContent [\<lparr>wp_text = Some ''balafon'', wp_weight = 1\<rparr>],
                              MusicGenerationConfig (buildConfigObj bpmOnly)]
         \<and> messageQueue s' = [])"
proof -
  have o: "ws queuedThenOpened = Some OPEN" by (simp add: queuedThenOpened_eq)
  have a: "setupComplete setupAck" by (simp add: setupAck_def)
  have n: "ws newClient \<noteq> Some OPEN" by (simp add: newClient_def)
  from send_gated_on_transport [of "PlaybackControl ''PLAY''" queuedThenOpened setupAck atobTable] o a
  have 1: "fst (send (PlaybackControl ''PLAY'') queuedThenOpened)"
    and 2: "\<exists>s'. handleMessage atobTable (Some setupAck) queuedThenOpened = Some s'
           \<and> transmitted s' = transmitted queuedThenOpened @ messageQueue queuedThenOpened
           \<and> messageQueue s' = []"
    by auto
  from send_gated_on_transport [of "PlaybackControl ''PLAY''" newClient setupAck atobTable] n
  have 3: "fst (send (PlaybackControl ''PLAY'') newClient) = False"
    and 4: "messageQueue (snd (send (PlaybackControl ''PLAY'') newClient)) = [PlaybackControl ''PLAY'']"
    by (auto simp: newClient_def)
  from 2 have 5: "\<exists>s'. handleMessage atobTable (Some setupAck) queuedThenOpened = Some s'
         \<and> transmitted s' = [Setup LYRIA_MODEL,
                              ClientContent [\<lparr>wp_text = Some ''balafon'', wp_weight = 1\<rparr>],
                              MusicGenerationConfig (buildConfigObj bpmOnly)]
         \<and> messageQueue s' = []"
    by (simp add: queuedThenOpened_eq)
  from o a 1 3 4 5 show ?thesis by blast
qed

subsection \<open>Inbound dispatch\<close>

























section \<open>Properties of the playback scheduler\<close>

subsection \<open>The timeline of segments\<close>

lemma startTimes_append: "startTimes (xs @ ys) = startTimes xs @ startTimes ys"
  by (induction xs rule: startTimes.induct) simp_all

lemma trackBuffer_start:
  "last (startTimes (calls (trackBuffer d now s))) =
     (if nextStartTime s < now then now + leadIn else nextStartTime s)"
  by (simp add: trackBuffer_def Let_def startTimes_append)

lemma trackBuffer_end:
  "endTime (last (scheduledBuffers (trackBuffer d now s))) =
     (if nextStartTime s < now then now + leadIn else nextStartTime s) + d"
  by (simp add: trackBuffer_def Let_def)

lemma nextStartTime_scheduleBuffer:
  "nextStartTime (scheduleBuffer d now s) =
     (if nextStartTime s < now then now + leadIn else nextStartTime s) + d"
  by (simp add: scheduleBuffer_def cleanupBuffers_def trackBuffer_def Let_def)

lemma segments_Cons:
  "segments ((now, d) # rest) s =
     ((if nextStartTime s < now then now + leadIn else nextStartTime s),
      (if nextStartTime s < now then now + leadIn else nextStartTime s) + d)
     # segments rest (scheduleBuffer d now s)"
  by (simp add: Let_def trackBuffer_start trackBuffer_end scheduleBuffer_def del: startTimes.simps)

lemma length_segments: "length (segments cs s) = length cs"
  by (induction cs arbitrary: s) (auto simp: segments_Cons simp del: segments.simps(2))

lemma nextStartTime_scheduleAll:
  "i < length cs \<Longrightarrow> nextStartTime (scheduleAll (take (Suc i) cs) s) = snd (segments cs s ! i)"
proof (induction cs arbitrary: s i)
  case Nil
  then show ?case by simp
next
  case (Cons c cs)
  obtain now d where c: "c = (now, d)" by (cases c)
  show ?case
  proof (cases i)
    case 0
    then show ?thesis
      by (simp add: c segments_Cons nextStartTime_scheduleBuffer del: segments.simps(2))
  next
    case (Suc j)
    with Cons.prems have "j < length cs" by simp
    from Cons.IH [OF this, of "scheduleBuffer d now s"] Suc show ?thesis
      by (simp add: c segments_Cons del: segments.simps(2))
  qed
qed

lemma segments_step:
  "Suc i < length cs \<Longrightarrow>
   (case (cs ! Suc i, segments cs s ! i, segments cs s ! Suc i) of
      ((now, d), (pst, pen), (st, en)) \<Rightarrow>
        (if pen < now then st = now + leadIn \<and> now < st else st = pen) \<and> en = st + d)"
proof (induction cs arbitrary: s i)
  case Nil
  then show ?case by simp
next
  case (Cons c cs)
  obtain now d where c: "c = (now, d)" by (cases c)
  show ?case
  proof (cases i)
    case 0
    with Cons.prems obtain c' rest where cs: "cs = c' # rest" by (cases cs) auto
    obtain now' d' where c': "c' = (now', d')" by (cases c')
    show ?thesis
      by (simp add: 0 c cs c' segments_Cons nextStartTime_scheduleBuffer leadIn_def
            del: segments.simps(2))
  next
    case (Suc j)
    with Cons.prems have "Suc j < length cs" by simp
    from Cons.IH [OF this, of "scheduleBuffer d now s"] Suc show ?thesis
      by (simp add: c segments_Cons del: segments.simps(2))
  qed
qed

text \<open>
  Claim C3. In any run of submitted buffers, from any state of the player, each
  segment after the first starts where the one before ends, unless the clock at
  its submission has passed that end: then it starts at the clock reading plus
  the lead-in, which is later than the clock reading. In both cases its end is
  its start plus the buffer's duration. The end of a segment is the value of
  \<^verbatim>\<open>nextStartTime\<close> after its submission. The first segment of a run starts
  by the same rule from the \<^verbatim>\<open>nextStartTime\<close> the run began with, and one call
  advances \<^verbatim>\<open>nextStartTime\<close> from the chosen start by the duration. The lead-in
  is 50 milliseconds.
\<close>

theorem segments_contiguous:
  "(Suc i < length cs \<longrightarrow>
      (case (cs ! Suc i, segments cs s ! i, segments cs s ! Suc i) of
         ((now, d), (pst, pen), (st, en)) \<Rightarrow>
           (if pen < now then st = now + leadIn \<and> now < st else st = pen) \<and> en = st + d)
      \<and> nextStartTime (scheduleAll (take (Suc i) cs) s) = snd (segments cs s ! i))
   \<and> length (segments cs s) = length cs
   \<and> fst (hd (segments ((now, d) # cs) s)) =
       (if nextStartTime s < now then now + leadIn else nextStartTime s)
   \<and> nextStartTime (scheduleBuffer d now s) =
       (if nextStartTime s < now then now + leadIn else nextStartTime s) + d
   \<and> leadIn = 5 / 100"
  using segments_step [of i cs s] nextStartTime_scheduleAll [of i cs s]
  by (simp add: length_segments nextStartTime_scheduleBuffer segments_Cons leadIn_def
        del: segments.simps(2))


lemma segments_threeBuffers:
  "segments threeBuffers (init newPlayer) = [(0, 1 / 10), (1 / 10, 2 / 10), (105 / 100, 115 / 100)]"
  by (simp add: threeBuffers_def segments_Cons nextStartTime_scheduleBuffer init_def newPlayer_def
        leadIn_def del: segments.simps(2))

text \<open>
  Three buffers of 100 ms submitted at 0, 0.05 and 1 second: the second starts at
  the end of the first; the third is submitted after the second has ended and
  starts at 1.05.
\<close>

theorem segments_contiguous_witness:
  "Suc 0 < length threeBuffers \<and> Suc 1 < length threeBuffers
   \<and> fst (segments threeBuffers (init newPlayer) ! 1) = snd (segments threeBuffers (init newPlayer) ! 0)
   \<and> snd (segments threeBuffers (init newPlayer) ! 1) < fst (threeBuffers ! 2)
   \<and> fst (segments threeBuffers (init newPlayer) ! 2) = 1 + leadIn"
proof -
  have l: "Suc 0 < length threeBuffers" "Suc 1 < length threeBuffers"
    by (simp_all add: threeBuffers_def)
  from segments_contiguous [of 0 threeBuffers "init newPlayer"] l(1)
  have 1: "fst (segments threeBuffers (init newPlayer) ! 1) = snd (segments threeBuffers (init newPlayer) ! 0)"
    unfolding segments_threeBuffers by (simp add: threeBuffers_def leadIn_def)
  from segments_contiguous [of 1 threeBuffers "init newPlayer"] l(2)
  have 2: "fst (segments threeBuffers (init newPlayer) ! 2) = 1 + leadIn"
    unfolding segments_threeBuffers by (simp add: threeBuffers_def leadIn_def)
  have 3: "snd (segments threeBuffers (init newPlayer) ! 1) < fst (threeBuffers ! 2)"
    unfolding segments_threeBuffers by (simp add: threeBuffers_def leadIn_def)
  from l 1 2 3 show ?thesis by blast
qed

subsection \<open>Pruning\<close>

text \<open>
  Claim C7. Of the entries tracked when the cleanup runs, one whose end time is
  ahead of the clock reading stays, and one whose end time the clock reading has
  passed goes and is disconnected; the cleanup adds no entry. The same holds for
  the cleanup at the end of \<^verbatim>\<open>scheduleBuffer\<close>, over the entries tracked after
  the push.
\<close>

theorem cleanupBuffers_exact:
  "(\<forall>item \<in> set (scheduledBuffers s).
      (now < endTime item \<longrightarrow> item \<in> set (scheduledBuffers (cleanupBuffers now s)))
      \<and> (endTime item < now \<longrightarrow>
           item \<notin> set (scheduledBuffers (cleanupBuffers now s))
           \<and> SourceDisconnect (source item) \<in> set (calls (cleanupBuffers now s))))
   \<and> (\<forall>item \<in> set (scheduledBuffers (trackBuffer d now s)).
      (now < endTime item \<longrightarrow> item \<in> set (scheduledBuffers (scheduleBuffer d now s)))
      \<and> (endTime item < now \<longrightarrow> item \<notin> set (scheduledBuffers (scheduleBuffer d now s))))
   \<and> set (scheduledBuffers (cleanupBuffers now s)) \<subseteq> set (scheduledBuffers s)"
  by (auto simp: cleanupBuffers_def scheduleBuffer_def)


lemma twoTracked_eq:
  "twoTracked = (init newPlayer)\<lparr>sourcesCreated := 2,
      calls := [SourceConnect 0, SourceStart 0 0, SourceConnect 1, SourceStart 1 (1 / 10)],
      nextStartTime := 2 / 10,
      scheduledBuffers := [\<lparr>source = 0, endTime = 1 / 10\<rparr>, \<lparr>source = 1, endTime = 2 / 10\<rparr>]\<rparr>"
  by (simp add: twoTracked_def threeBuffers_def scheduleBuffer_def trackBuffer_def
        cleanupBuffers_def init_def newPlayer_def leadIn_def Let_def)

text \<open>
  Two segments ending at 0.1 and 0.2, cleaned up at 0.15: the first goes, the
  second stays.
\<close>

theorem cleanupBuffers_exact_witness:
  "\<lparr>source = 0, endTime = 1 / 10\<rparr> \<in> set (scheduledBuffers twoTracked)
   \<and> \<lparr>source = 1, endTime = 2 / 10\<rparr> \<in> set (scheduledBuffers twoTracked)
   \<and> \<lparr>source = 0, endTime = 1 / 10\<rparr> \<notin> set (scheduledBuffers (cleanupBuffers (15 / 100) twoTracked))
   \<and> \<lparr>source = 1, endTime = 2 / 10\<rparr> \<in> set (scheduledBuffers (cleanupBuffers (15 / 100) twoTracked))"
proof -
  have a: "\<lparr>source = 0, endTime = 1 / 10\<rparr> \<in> set (scheduledBuffers twoTracked)"
    and b: "\<lparr>source = 1, endTime = 2 / 10\<rparr> \<in> set (scheduledBuffers twoTracked)"
    by (simp_all add: twoTracked_eq)
  from cleanupBuffers_exact [of twoTracked "15 / 100"] a
  have 1: "\<lparr>source = 0, endTime = 1 / 10\<rparr> \<notin> set (scheduledBuffers (cleanupBuffers (15 / 100) twoTracked))"
    by fastforce
  from cleanupBuffers_exact [of twoTracked "15 / 100"] b
  have 2: "\<lparr>source = 1, endTime = 2 / 10\<rparr> \<in> set (scheduledBuffers (cleanupBuffers (15 / 100) twoTracked))"
    by fastforce
  from a b 1 2 show ?thesis by blast
qed

subsection \<open>Fading out\<close>

lemma processAudioChunk_stopping: "isStopping s \<Longrightarrow> processAudioChunk pcmData t s = Inr s"
  by (simp add: processAudioChunk_def)

lemma submitAll_stopping: "isStopping s \<Longrightarrow> submitAll cs s = Inr s"
  by (induction cs) (auto simp: processAudioChunk_stopping)

lemma stop_initialised:
  "audioContext s \<Longrightarrow> gainNode s \<Longrightarrow>
   stop f now gv s =
     s\<lparr>isStopping := True,
       calls := calls s @ [GainCancelScheduledValues now, GainSetValueAtTime gv now,
                           GainLinearRampToValueAtTime 0 (now + f)],
       timersSet := Suc (timersSet s),
       pendingTimers := pendingTimers s @ [(Suc (timersSet s), f * 1000)],
       stopTimeout := Some (Suc (timersSet s))\<rparr>"
  by (simp add: stop_def Let_def)

lemma timerFires_pending:
  "h \<in> fst ` set (pendingTimers s) \<Longrightarrow>
   timerFires h now s =
     s\<lparr>pendingTimers := filter (\<lambda>t. fst t \<noteq> h) (pendingTimers s),
       calls := calls s @ releaseCalls s @ restoreGainCalls now s,
       scheduledBuffers := [], nextStartTime := 0, audioQueue := [], isStopping := False\<rparr>"
  by (simp add: timerFires_def stopTeardown_def releaseCalls_def restoreGainCalls_def)

lemma startTimes_disconnects:
  "startTimes (map (\<lambda>item. SourceDisconnect (source item)) xs) = []"
  by (induction xs) simp_all

lemma startTimes_releases:
  "startTimes (concat (map (\<lambda>item. [SourceStop (source item), SourceDisconnect (source item)]) xs)) = []"
  by (induction xs) simp_all

lemma processAudioChunk_after_reset:
  assumes "audioContext s" and "\<not> isStopping s" and "nextStartTime s = 0"
    and "scheduledBuffers s = []" and "even (length pcmData)" and "4 \<le> length pcmData"
  shows "\<exists>s'. processAudioChunk pcmData t s = Inr s'
           \<and> startTimes (calls s') = startTimes (calls s) @ [if 0 < t then t + leadIn else 0]
           \<and> map source (scheduledBuffers s') = [sourcesCreated s]"
proof -
  from assms(6) have n: "length pcmData div 2 div 2 \<noteq> 0" by presburger
  define d where "d = real (length pcmData div 2 div channels) / real sampleRate"
  have d: "0 < d" using n by (simp add: d_def channels_def sampleRate_def)
  have "processAudioChunk pcmData t s = Inr (scheduleBuffer d t s)"
    using assms(1,2,5) n by (simp add: processAudioChunk_def d_def channels_def Let_def)
  moreover have "startTimes (calls (scheduleBuffer d t s)) =
                   startTimes (calls s) @ [if 0 < t then t + leadIn else 0]"
    using assms(3) by (simp add: scheduleBuffer_def cleanupBuffers_def trackBuffer_def Let_def
        startTimes_append startTimes_disconnects)
  moreover have "map source (scheduledBuffers (scheduleBuffer d t s)) = [sourcesCreated s]"
    using assms(3,4) d by (simp add: scheduleBuffer_def cleanupBuffers_def trackBuffer_def Let_def
        leadIn_def)
  ultimately show ?thesis by simp
qed

text \<open>
  A fade with nothing but chunk submissions between the call and the run of its
  own teardown. On an initialised player, after \<^verbatim>\<open>stop\<close> the flag
  \<^verbatim>\<open>isStopping\<close> is set and any run of chunk submissions leaves the player as
  it is. The call has set a timeout for its teardown. When that runs, every
  source tracked at the call is stopped and disconnected, the tracked list is
  empty, \<^verbatim>\<open>nextStartTime\<close> is zero, the gain is set to 1 after its scheduled
  values are cancelled, and the flag is cleared; a chunk of at least one frame
  submitted afterwards is scheduled.
\<close>

lemma stop_then_own_teardown:
  assumes "audioContext s" and "gainNode s"
  shows "isStopping (stop f now gv s)
    \<and> submitAll cs (stop f now gv s) = Inr (stop f now gv s)
    \<and> stopTimeout (stop f now gv s) = Some (Suc (timersSet s))
    \<and> (Suc (timersSet s), f * 1000) \<in> set (pendingTimers (stop f now gv s))
    \<and> scheduledBuffers (timerFires (Suc (timersSet s)) now' (stop f now gv s)) = []
    \<and> nextStartTime (timerFires (Suc (timersSet s)) now' (stop f now gv s)) = 0
    \<and> \<not> isStopping (timerFires (Suc (timersSet s)) now' (stop f now gv s))
    \<and> calls (timerFires (Suc (timersSet s)) now' (stop f now gv s)) =
        calls (stop f now gv s)
        @ concat (map (\<lambda>item. [SourceStop (source item), SourceDisconnect (source item)])
                      (scheduledBuffers s))
        @ [GainCancelScheduledValues now', GainSetValueAtTime 1 now']
    \<and> (even (length pcmData) \<and> 4 \<le> length pcmData \<longrightarrow>
         (\<exists>s'. processAudioChunk pcmData t (timerFires (Suc (timersSet s)) now' (stop f now gv s)) = Inr s'
            \<and> startTimes (calls s') =
                startTimes (calls (stop f now gv s)) @ [if 0 < t then t + leadIn else 0]
            \<and> length (scheduledBuffers s') = 1))"
proof -
  let ?s1 = "stop f now gv s"
  let ?h = "Suc (timersSet s)"
  let ?s2 = "timerFires ?h now' ?s1"
  note s1 = stop_initialised [OF assms, of f now gv]
  have st: "isStopping ?s1" by (simp add: s1)
  have sub: "submitAll cs ?s1 = Inr ?s1" by (rule submitAll_stopping [OF st])
  have h: "stopTimeout ?s1 = Some ?h" by (simp add: s1)
  have p: "(?h, f * 1000) \<in> set (pendingTimers ?s1)" by (simp add: s1)
  then have pend: "?h \<in> fst ` set (pendingTimers ?s1)" by force
  note s2 = timerFires_pending [OF pend, of now']
  have b: "scheduledBuffers ?s2 = []" and n: "nextStartTime ?s2 = 0" and i: "\<not> isStopping ?s2"
    by (simp_all add: s2)
  have c: "calls ?s2 = calls ?s1
        @ concat (map (\<lambda>item. [SourceStop (source item), SourceDisconnect (source item)])
                      (scheduledBuffers s))
        @ [GainCancelScheduledValues now', GainSetValueAtTime 1 now']"
    using assms by (simp add: s2 releaseCalls_def restoreGainCalls_def) (simp add: s1)
  have a: "audioContext ?s2" using assms by (simp add: s2) (simp add: s1)
  have after: "even (length pcmData) \<and> 4 \<le> length pcmData \<longrightarrow>
         (\<exists>s'. processAudioChunk pcmData t ?s2 = Inr s'
            \<and> startTimes (calls s') = startTimes (calls ?s1) @ [if 0 < t then t + leadIn else 0]
            \<and> length (scheduledBuffers s') = 1)"
  proof
    assume e: "even (length pcmData) \<and> 4 \<le> length pcmData"
    from e have e1: "even (length pcmData)" and e2: "4 \<le> length pcmData" by simp_all
    from processAudioChunk_after_reset [OF a i n b e1 e2, of t]
    obtain s' where r: "processAudioChunk pcmData t ?s2 = Inr s'"
      and t: "startTimes (calls s') = startTimes (calls ?s2) @ [if 0 < t then t + leadIn else 0]"
      and m: "map source (scheduledBuffers s') = [sourcesCreated ?s2]"
      by auto
    have "startTimes (calls ?s2) = startTimes (calls ?s1)"
      unfolding c by (simp add: startTimes_append startTimes_releases)
    moreover from m have "length (scheduledBuffers s') = 1"
      by (metis length_map length_Cons list.size(3) One_nat_def)
    ultimately show "\<exists>s'. processAudioChunk pcmData t ?s2 = Inr s'
            \<and> startTimes (calls s') = startTimes (calls ?s1) @ [if 0 < t then t + leadIn else 0]
            \<and> length (scheduledBuffers s') = 1"
      using r t by simp
  qed
  from st sub h p b n i c after show ?thesis by blast
qed


text \<open>
  A fade begun with two segments tracked: two chunks submitted during the fade
  change nothing; the teardown at 0.8 stops and disconnects both sources and
  restores the gain; the chunk submitted at 0.9 starts at 0.95.
\<close>

lemma stop_then_own_teardown_example:
  "audioContext twoTracked \<and> gainNode twoTracked
   \<and> submitAll [(twoFrames, 35 / 100), (twoFrames, 4 / 10)] fadingOut = Inr fadingOut
   \<and> calls (timerFires 1 (8 / 10) fadingOut) =
        calls fadingOut @ [SourceStop 0, SourceDisconnect 0, SourceStop 1, SourceDisconnect 1,
                           GainCancelScheduledValues (8 / 10), GainSetValueAtTime 1 (8 / 10)]
   \<and> nextStartTime (timerFires 1 (8 / 10) fadingOut) = 0
   \<and> (\<exists>s'. processAudioChunk twoFrames (9 / 10) (timerFires 1 (8 / 10) fadingOut) = Inr s'
          \<and> startTimes (calls s') = [0, 1 / 10, 95 / 100])"
proof -
  have a: "audioContext twoTracked" and g: "gainNode twoTracked"
    by (simp_all add: twoTracked_eq init_def newPlayer_def)
  have t: "timersSet twoTracked = 0" by (simp add: twoTracked_eq init_def newPlayer_def)
  have e: "even (length twoFrames) \<and> 4 \<le> length twoFrames" by (simp add: twoFrames_def)
  have st: "startTimes (calls fadingOut) = [0, 1 / 10]"
    by (simp add: fadingOut_def stop_initialised [OF a g] startTimes_append) (simp add: twoTracked_eq)
  from stop_then_own_teardown
         [OF a g, of "1 / 2" "3 / 10" 1 "[(twoFrames, 35 / 100), (twoFrames, 4 / 10)]" "8 / 10" twoFrames "9 / 10"]
  have 1: "submitAll [(twoFrames, 35 / 100), (twoFrames, 4 / 10)] fadingOut = Inr fadingOut"
    and 2: "calls (timerFires 1 (8 / 10) fadingOut) =
        calls fadingOut
        @ concat (map (\<lambda>item. [SourceStop (source item), SourceDisconnect (source item)])
                      (scheduledBuffers twoTracked))
        @ [GainCancelScheduledValues (8 / 10), GainSetValueAtTime 1 (8 / 10)]"
    and 3: "nextStartTime (timerFires 1 (8 / 10) fadingOut) = 0"
    and 4: "\<exists>s'. processAudioChunk twoFrames (9 / 10) (timerFires 1 (8 / 10) fadingOut) = Inr s'
            \<and> startTimes (calls s') = startTimes (calls fadingOut) @ [if 0 < (9 / 10 :: real) then 9 / 10 + leadIn else 0]
            \<and> length (scheduledBuffers s') = 1"
    using e unfolding t fadingOut_def [symmetric] by simp_all
  from 2 have c2: "calls (timerFires 1 (8 / 10) fadingOut) =
        calls fadingOut @ [SourceStop 0, SourceDisconnect 0, SourceStop 1, SourceDisconnect 1,
                           GainCancelScheduledValues (8 / 10), GainSetValueAtTime 1 (8 / 10)]"
    by (simp add: twoTracked_eq)
  from 4 have c4: "\<exists>s'. processAudioChunk twoFrames (9 / 10) (timerFires 1 (8 / 10) fadingOut) = Inr s'
          \<and> startTimes (calls s') = [0, 1 / 10, 95 / 100]"
    by (auto simp: st leadIn_def)
  from a g 1 c2 3 c4 show ?thesis by blast
qed

subsection \<open>A fade begun during a fade\<close>

lemma firstFade_eq:
  "firstFade = (init newPlayer)\<lparr>isStopping := True,
       calls := [GainCancelScheduledValues 0, GainSetValueAtTime 1 0,
                 GainLinearRampToValueAtTime 0 (1 / 2)],
       timersSet := 1, pendingTimers := [(1, 500)], stopTimeout := Some 1\<rparr>"
  by (simp add: firstFade_def stop_def init_def newPlayer_def Let_def)

lemma secondFade_eq:
  "secondFade = (init newPlayer)\<lparr>isStopping := True,
       calls := [GainCancelScheduledValues 0, GainSetValueAtTime 1 0,
                 GainLinearRampToValueAtTime 0 (1 / 2),
                 GainCancelScheduledValues (4 / 10), GainSetValueAtTime (2 / 10) (4 / 10),
                 GainLinearRampToValueAtTime 0 (24 / 10)],
       timersSet := 2, pendingTimers := [(1, 500), (2, 2000)], stopTimeout := Some 2\<rparr>"
  by (simp add: secondFade_def firstFade_eq stop_def Let_def) (simp add: init_def newPlayer_def)

lemma staleTeardown_eq:
  "timerFires 1 (1 / 2) secondFade =
     (init newPlayer)\<lparr>isStopping := False,
       calls := [GainCancelScheduledValues 0, GainSetValueAtTime 1 0,
                 GainLinearRampToValueAtTime 0 (1 / 2),
                 GainCancelScheduledValues (4 / 10), GainSetValueAtTime (2 / 10) (4 / 10),
                 GainLinearRampToValueAtTime 0 (24 / 10),
                 GainCancelScheduledValues (1 / 2), GainSetValueAtTime 1 (1 / 2)],
       timersSet := 2, pendingTimers := [(2, 2000)], stopTimeout := Some 2\<rparr>"
  by (simp add: timerFires_def secondFade_eq stopTeardown_def releaseCalls_def restoreGainCalls_def
        init_def newPlayer_def)

text \<open>
  Claim C4, the code run on a fade begun during a fade: \<^verbatim>\<open>stop(0.5)\<close> at 0 and
  \<^verbatim>\<open>stop(2)\<close> at 0.4, whose teardown is due at 2.4. A chunk submitted at 0.45
  changes nothing. At 0.5 the teardown of the first fade runs; the timeout of the
  second is still pending. A chunk of two frames submitted at 0.6, after the
  second call and before its teardown, is not a no-op: a source is created,
  started at 0.65 and tracked.
\<close>

theorem chunk_scheduled_before_teardown:
  "isStopping secondFade
   \<and> stopTimeout secondFade = Some 2
   \<and> processAudioChunk twoFrames (45 / 100) secondFade = Inr secondFade
   \<and> (2, 2000) \<in> set (pendingTimers (timerFires 1 (1 / 2) secondFade))
   \<and> (case processAudioChunk twoFrames (6 / 10) (timerFires 1 (1 / 2) secondFade) of
         Inl e \<Rightarrow> []
       | Inr s' \<Rightarrow> scheduledBuffers s') = [\<lparr>source = 0, endTime = 65 / 100 + 2 / 48000\<rparr>]
   \<and> (case processAudioChunk twoFrames (6 / 10) (timerFires 1 (1 / 2) secondFade) of
         Inl e \<Rightarrow> []
       | Inr s' \<Rightarrow> calls s') =
       calls (timerFires 1 (1 / 2) secondFade) @ [SourceConnect 0, SourceStart 0 (65 / 100)]"
proof -
  have s: "isStopping secondFade" "stopTimeout secondFade = Some 2"
    by (simp_all add: secondFade_eq)
  have n: "processAudioChunk twoFrames (45 / 100) secondFade = Inr secondFade"
    by (rule processAudioChunk_stopping [OF s(1)])
  have p: "(2, 2000) \<in> set (pendingTimers (timerFires 1 (1 / 2) secondFade))"
    unfolding staleTeardown_eq by simp
  have b: "(case processAudioChunk twoFrames (6 / 10) (timerFires 1 (1 / 2) secondFade) of
         Inl e \<Rightarrow> []
       | Inr s' \<Rightarrow> scheduledBuffers s') = [\<lparr>source = 0, endTime = 65 / 100 + 2 / 48000\<rparr>]"
    unfolding staleTeardown_eq
    by (simp add: processAudioChunk_def twoFrames_def channels_def sampleRate_def Let_def
          scheduleBuffer_def cleanupBuffers_def trackBuffer_def leadIn_def init_def newPlayer_def)
  have c: "(case processAudioChunk twoFrames (6 / 10) (timerFires 1 (1 / 2) secondFade) of
         Inl e \<Rightarrow> []
       | Inr s' \<Rightarrow> calls s') =
       calls (timerFires 1 (1 / 2) secondFade) @ [SourceConnect 0, SourceStart 0 (65 / 100)]"
    unfolding staleTeardown_eq
    by (simp add: processAudioChunk_def twoFrames_def channels_def sampleRate_def Let_def
          scheduleBuffer_def cleanupBuffers_def trackBuffer_def leadIn_def init_def newPlayer_def)
  from s n p b c show ?thesis by blast
qed

text \<open>The second fade's timeout is pending when the chunk is tracked.\<close>

theorem chunk_scheduled_before_teardown_witness:
  "isStopping secondFade
   \<and> (2, 2000) \<in> set (pendingTimers (timerFires 1 (1 / 2) secondFade))
   \<and> map source (case processAudioChunk twoFrames (6 / 10) (timerFires 1 (1 / 2) secondFade) of
                   Inl e \<Rightarrow> []
                 | Inr s' \<Rightarrow> scheduledBuffers s') = [0]"
  using chunk_scheduled_before_teardown by simp

text \<open>
  Claim C5, the code run on a fade begun during a fade: \<^verbatim>\<open>stop(0.5)\<close> at 0 and
  \<^verbatim>\<open>stop(2)\<close> at 0.4. The second call sets a second timeout and leaves the
  first pending; only the handle of the second is kept. At 0.5 the first teardown
  runs in the middle of the second fade: it clears \<^verbatim>\<open>isStopping\<close>, cancels the
  second ramp and sets the gain to 1, and a chunk submitted at 0.6 is scheduled.
  \<^verbatim>\<open>hardStop\<close> does clear the timeout whose handle is kept: after the first
  call none is pending, after the second call the first one still is.
\<close>

theorem second_stop_keeps_first_teardown:
  "pendingTimers firstFade = [(1, 500)]
   \<and> pendingTimers secondFade = [(1, 500), (2, 2000)]
   \<and> stopTimeout secondFade = Some 2
   \<and> isStopping secondFade
   \<and> \<not> isStopping (timerFires 1 (1 / 2) secondFade)
   \<and> pendingTimers (timerFires 1 (1 / 2) secondFade) = [(2, 2000)]
   \<and> calls (timerFires 1 (1 / 2) secondFade) =
        calls secondFade @ [GainCancelScheduledValues (1 / 2), GainSetValueAtTime 1 (1 / 2)]
   \<and> (case processAudioChunk twoFrames (6 / 10) (timerFires 1 (1 / 2) secondFade) of
         Inl e \<Rightarrow> []
       | Inr s' \<Rightarrow> startTimes (calls s')) = [65 / 100]
   \<and> pendingTimers (hardStop (45 / 100) firstFade) = []
   \<and> pendingTimers (hardStop (45 / 100) secondFade) = [(1, 500)]"
proof -
  have c: "(case processAudioChunk twoFrames (6 / 10) (timerFires 1 (1 / 2) secondFade) of
         Inl e \<Rightarrow> []
       | Inr s' \<Rightarrow> startTimes (calls s')) = [65 / 100]"
    unfolding staleTeardown_eq
    by (simp add: processAudioChunk_def twoFrames_def channels_def Let_def scheduleBuffer_def
          cleanupBuffers_def trackBuffer_def leadIn_def init_def newPlayer_def)
  have h1: "pendingTimers (hardStop (45 / 100) firstFade) = []"
    by (simp add: hardStop_def firstFade_eq clearTimeout_def Let_def)
  have h2: "pendingTimers (hardStop (45 / 100) secondFade) = [(1, 500)]"
    by (simp add: hardStop_def secondFade_eq clearTimeout_def Let_def)
  have r: "calls (timerFires 1 (1 / 2) secondFade) =
        calls secondFade @ [GainCancelScheduledValues (1 / 2), GainSetValueAtTime 1 (1 / 2)]"
    unfolding staleTeardown_eq by (simp add: secondFade_eq)
  have q: "pendingTimers (timerFires 1 (1 / 2) secondFade) = [(2, 2000)]"
    unfolding staleTeardown_eq by simp
  have i: "\<not> isStopping (timerFires 1 (1 / 2) secondFade)"
    unfolding staleTeardown_eq by simp
  have s: "pendingTimers firstFade = [(1, 500)]" "pendingTimers secondFade = [(1, 500), (2, 2000)]"
    "stopTimeout secondFade = Some 2" "isStopping secondFade"
    by (simp_all add: firstFade_eq secondFade_eq)
  from c h1 h2 r q i s show ?thesis by blast
qed

text \<open>The first timeout is still pending after the second call, and its run
  clears the flag while the second fade is under way.\<close>

theorem second_stop_keeps_first_teardown_witness:
  "1 \<in> fst ` set (pendingTimers secondFade) \<and> isStopping secondFade
   \<and> \<not> isStopping (timerFires 1 (1 / 2) secondFade)"
  using second_stop_keeps_first_teardown by simp

section \<open>Properties of the parameter mappings\<close>

subsection \<open>Loading\<close>

lemma update_fresh: "k \<notin> fst ` set al \<Longrightarrow> AList.update k v al = al @ [(k, v)]"
  by (induction al) auto

lemma keepLast_snoc:
  "keepLast (xs @ [(k, v)]) =
     filter (\<lambda>(k', v'). \<not> (channel v' = channel v \<and> cc v' = cc v)) (keepLast xs) @ [(k, v)]"
  by (induction xs rule: keepLast.induct) (auto simp: list_ex_iff)

lemma keepLast_subset: "set (keepLast xs) \<subseteq> set xs"
  by (induction xs rule: keepLast.induct) auto

lemma keepLast_uniqueCC: "uniqueCC (keepLast xs)"
  unfolding uniqueCC_def
proof (induction xs rule: keepLast.induct)
  case 1
  then show ?case by simp
next
  case (2 k v rest)
  show ?case
  proof (cases "list_ex (\<lambda>(k', v'). channel v' = channel v \<and> cc v' = cc v) rest")
    case True
    with 2 show ?thesis by simp
  next
    case False
    then have "(channel v, cc v) \<notin> (\<lambda>(k, v). (channel v, cc v)) ` set (keepLast rest)"
      using keepLast_subset [of rest] by (force simp: list_ex_iff)
    with False 2 show ?thesis by simp
  qed
qed

lemma keepLast_distinct_keys: "distinct (map fst xs) \<Longrightarrow> distinct (map fst (keepLast xs))"
proof (induction xs rule: keepLast.induct)
  case 1
  then show ?case by simp
next
  case (2 k v rest)
  then have "k \<notin> fst ` set (keepLast rest)"
    using keepLast_subset [of rest] by auto
  with 2 show ?case by auto
qed

lemma seenAfter_snoc:
  "seenAfter (xs @ [(k, v)]) = (seenAfter xs)((channel v, cc v) \<mapsto> k)"
  by (simp add: seenAfter_def)

lemma seenAfter_Some:
  "seenAfter xs p = Some k \<Longrightarrow> \<exists>v. (k, v) \<in> set xs \<and> (channel v, cc v) = p"
  by (auto simp: seenAfter_def dest!: map_of_SomeD)

lemma keepLast_seen:
  "(k, v) \<in> set (keepLast xs) \<Longrightarrow> seenAfter xs (channel v, cc v) = Some k"
proof (induction xs rule: rev_induct)
  case Nil
  then show ?case by simp
next
  case (snoc x xs)
  obtain k' v' where x: "x = (k', v')" by (cases x)
  from snoc show ?case
    by (auto simp: x keepLast_snoc seenAfter_snoc)
qed

lemma delete_older:
  assumes "distinct (map fst xs)" and "seenAfter xs p = Some older"
  shows "AList.delete older (keepLast xs) =
           filter (\<lambda>(k', v'). \<not> (channel v' = fst p \<and> cc v' = snd p)) (keepLast xs)"
  unfolding AList.delete_eq
proof (rule filter_cong [OF refl])
  fix e assume e: "e \<in> set (keepLast xs)"
  obtain k v where kv: "e = (k, v)" by (cases e)
  from assms(2) obtain v0 where v0: "(older, v0) \<in> set xs" "(channel v0, cc v0) = p"
    using seenAfter_Some by blast
  from e kv have in_xs: "(k, v) \<in> set xs" using keepLast_subset by blast
  have "(older \<noteq> k) = (\<not> (channel v = fst p \<and> cc v = snd p))"
  proof (cases "k = older")
    case True
    with in_xs v0(1) assms(1) have "v = v0" by (metis eq_key_imp_eq_value)
    with True v0(2) show ?thesis by auto
  next
    case False
    have "\<not> (channel v = fst p \<and> cc v = snd p)"
    proof
      assume "channel v = fst p \<and> cc v = snd p"
      then have "(channel v, cc v) = p" by (cases p) simp
      with keepLast_seen [of k v xs] e kv assms(2) False show False by simp
    qed
    with False show ?thesis by simp
  qed
  then show "(case e of (k', _) \<Rightarrow> older \<noteq> k') =
             (case e of (k', v') \<Rightarrow> \<not> (channel v' = fst p \<and> cc v' = snd p))"
    by (simp add: kv)
qed

lemma keep_unseen:
  assumes "seenAfter xs p = None"
  shows "filter (\<lambda>(k', v'). \<not> (channel v' = fst p \<and> cc v' = snd p)) (keepLast xs) = keepLast xs"
proof -
  have "\<forall>e \<in> set (keepLast xs). case e of (k', v') \<Rightarrow> \<not> (channel v' = fst p \<and> cc v' = snd p)"
  proof
    fix e assume e: "e \<in> set (keepLast xs)"
    obtain k v where kv: "e = (k, v)" by (cases e)
    have "\<not> (channel v = fst p \<and> cc v = snd p)"
    proof
      assume "channel v = fst p \<and> cc v = snd p"
      then have "(channel v, cc v) = p" by (cases p) simp
      with keepLast_seen [of k v xs] e kv assms show False by simp
    qed
    then show "case e of (k', v') \<Rightarrow> \<not> (channel v' = fst p \<and> cc v' = snd p)" by (simp add: kv)
  qed
  then show ?thesis by (simp add: filter_id_conv)
qed

lemma loadLoop_keepLast:
  "distinct (map fst (pre @ rest)) \<Longrightarrow>
   loadLoop rest (seenAfter pre) (keepLast pre) = keepLast (pre @ rest)"
proof (induction rest arbitrary: pre)
  case Nil
  then show ?case by simp
next
  case (Cons e rest)
  obtain k v where e: "e = (k, v)" by (cases e)
  let ?p = "(channel v, cc v)"
  let ?m1 = "case seenAfter pre ?p of None \<Rightarrow> keepLast pre | Some older \<Rightarrow> AList.delete older (keepLast pre)"
  from Cons.prems have d: "distinct (map fst pre)" and fresh: "k \<notin> fst ` set pre"
    by (auto simp: e)
  have m1: "?m1 = filter (\<lambda>(k', v'). \<not> (channel v' = channel v \<and> cc v' = cc v)) (keepLast pre)"
  proof (cases "seenAfter pre ?p")
    case None
    then show ?thesis using keep_unseen [of pre ?p] by simp
  next
    case (Some older)
    then show ?thesis using delete_older [OF d, of ?p older] by simp
  qed
  have "k \<notin> fst ` set ?m1"
    unfolding m1 using fresh keepLast_subset [of pre] by auto
  then have "AList.update k v ?m1 = ?m1 @ [(k, v)]" by (rule update_fresh)
  then have step: "AList.update k v ?m1 = keepLast (pre @ [(k, v)])"
    unfolding m1 by (simp add: keepLast_snoc)
  have "loadLoop (e # rest) (seenAfter pre) (keepLast pre) =
          loadLoop rest (seenAfter (pre @ [(k, v)])) (keepLast (pre @ [(k, v)]))"
    by (simp add: e Let_def seenAfter_snoc step)
  also have "\<dots> = keepLast ((pre @ [(k, v)]) @ rest)"
    using Cons.prems by (intro Cons.IH) (simp add: e)
  finally show ?case by (simp add: e)
qed

lemma loadMappings_keepLast:
  "storage s = Entries parsed \<Longrightarrow> distinct (map fst parsed) \<Longrightarrow>
   mappings (loadMappings s) = keepLast parsed"
  using loadLoop_keepLast [of "[]" parsed]
  by (simp add: loadMappings_def seenAfter_def)

subsection \<open>Assigning\<close>

lemma removeConflicts_filter:
  "removeConflicts snap sliderId ch c m =
     filter (\<lambda>(k, v). \<not> (\<exists>v'. (k, v') \<in> set snap \<and> cc v' = c \<and> channel v' = ch \<and> k \<noteq> sliderId)) m"
proof (induction snap arbitrary: m)
  case Nil
  then show ?case by simp
next
  case (Cons e snap)
  obtain k0 v0 where e: "e = (k0, v0)" by (cases e)
  show ?case
    unfolding e removeConflicts.simps Cons.IH
    by (auto simp: AList.delete_eq intro!: filter_cong)
qed

lemma removeConflicts_self:
  assumes "distinct (map fst m)"
  shows "removeConflicts m sliderId ch c m =
           filter (\<lambda>(k, v). \<not> (cc v = c \<and> channel v = ch \<and> k \<noteq> sliderId)) m"
  unfolding removeConflicts_filter
proof (rule filter_cong [OF refl])
  fix e assume e: "e \<in> set m"
  obtain k v where kv: "e = (k, v)" by (cases e)
  have "(\<exists>v'. (k, v') \<in> set m \<and> cc v' = c \<and> channel v' = ch \<and> k \<noteq> sliderId)
          = (cc v = c \<and> channel v = ch \<and> k \<noteq> sliderId)"
    using e kv assms by (metis eq_key_imp_eq_value)
  then show "(case e of (k, v) \<Rightarrow>
                \<not> (\<exists>v'. (k, v') \<in> set m \<and> cc v' = c \<and> channel v' = ch \<and> k \<noteq> sliderId))
           = (case e of (k, v) \<Rightarrow> \<not> (cc v = c \<and> channel v = ch \<and> k \<noteq> sliderId))"
    unfolding kv prod.case by (rule arg_cong [of _ _ Not])
qed

lemma set_update_subset: "set (AList.update k v al) \<subseteq> insert (k, v) (set al)"
  by (induction al) auto

lemma uniqueCC_update:
  assumes "distinct (map fst al)" and "uniqueCC al"
    and "\<forall>(k', v') \<in> set al. channel v' = channel v \<and> cc v' = cc v \<longrightarrow> k' = k"
  shows "uniqueCC (AList.update k v al)"
  using assms unfolding uniqueCC_def
proof (induction al)
  case Nil
  then show ?case by simp
next
  case (Cons e al)
  obtain k0 v0 where e: "e = (k0, v0)" by (cases e)
  show ?case
  proof (cases "k0 = k")
    case True
    have "(channel v, cc v) \<notin> (\<lambda>(k, v). (channel v, cc v)) ` set al"
    proof
      assume "(channel v, cc v) \<in> (\<lambda>(k, v). (channel v, cc v)) ` set al"
      then obtain k1 v1 where in1: "(k1, v1) \<in> set al" and p: "channel v1 = channel v" "cc v1 = cc v"
        by auto
      with Cons.prems(3) have "k1 = k" by auto
      with in1 Cons.prems(1) True e show False by force
    qed
    with Cons.prems(2) True e show ?thesis by simp
  next
    case False
    from Cons.prems have IH: "distinct (map (\<lambda>(k, v). (channel v, cc v)) (AList.update k v al))"
      by (intro Cons.IH) (auto simp: e)
    have "(channel v0, cc v0) \<notin> (\<lambda>(k, v). (channel v, cc v)) ` set (AList.update k v al)"
    proof
      assume "(channel v0, cc v0) \<in> (\<lambda>(k, v). (channel v, cc v)) ` set (AList.update k v al)"
      then obtain k1 v1 where in1: "(k1, v1) \<in> set (AList.update k v al)"
        and p: "channel v1 = channel v0" "cc v1 = cc v0"
        by auto
      from in1 set_update_subset [of k v al] have "(k1, v1) = (k, v) \<or> (k1, v1) \<in> set al" by auto
      then show False
      proof
        assume "(k1, v1) = (k, v)"
        with p Cons.prems(3) e False show False by auto
      next
        assume "(k1, v1) \<in> set al"
        with p Cons.prems(2) e show False by force
      qed
    qed
    with IH False e show ?thesis by simp
  qed
qed

lemma assignMapping_mappings:
  assumes "distinct (map fst (mappings s))"
  shows "mappings (assignMapping sliderId ch c s) =
           AList.update sliderId \<lparr>channel = ch, cc = c\<rparr>
             (filter (\<lambda>(k, v). \<not> (cc v = c \<and> channel v = ch \<and> k \<noteq> sliderId)) (mappings s))"
  using removeConflicts_self [OF assms, of sliderId ch c]
  by (simp add: assignMapping_def saveMappings_def Let_def)

lemma uniqueCC_filter: "uniqueCC m \<Longrightarrow> uniqueCC (filter P m)"
  by (simp add: uniqueCC_def distinct_map_filter)

text \<open>
  Claim C8. Loading stored entries with distinct keys leaves exactly the entries
  that no later entry shares channel and controller with, in their stored order:
  of several parameters on one pair the last one stays and the older ones are
  deleted. The loaded mappings have no pair twice. Assigning a pair to a parameter
  leaves exactly the mappings there were, without those of other parameters on
  that pair, and with the parameter set to the pair: every parameter on another
  pair keeps its mapping, no other parameter is left on the assigned pair, and
  what was assigned is stored. Assigning keeps the keys distinct and, when no
  pair was there twice before, none is there twice after. Clearing one mapping or
  all of them keeps that too.
\<close>

theorem mappings_unique_per_controller:
  "(storage s = Entries parsed \<and> distinct (map fst parsed) \<longrightarrow>
       mappings (loadMappings s) = keepLast parsed
     \<and> uniqueCC (mappings (loadMappings s))
     \<and> distinct (map fst (mappings (loadMappings s))))
   \<and> (distinct (map fst (mappings s)) \<longrightarrow>
       mappings (assignMapping sliderId ch c s) =
         AList.update sliderId \<lparr>channel = ch, cc = c\<rparr>
           (filter (\<lambda>(k, v). \<not> (cc v = c \<and> channel v = ch \<and> k \<noteq> sliderId)) (mappings s))
     \<and> (\<forall>(k, v) \<in> set (mappings s).
           k \<noteq> sliderId \<and> \<not> (channel v = ch \<and> cc v = c) \<longrightarrow>
             map_of (mappings (assignMapping sliderId ch c s)) k = Some v)
     \<and> storage (assignMapping sliderId ch c s) = Entries (mappings (assignMapping sliderId ch c s))
     \<and> map_of (mappings (assignMapping sliderId ch c s)) sliderId = Some \<lparr>channel = ch, cc = c\<rparr>
     \<and> (\<forall>(k, v) \<in> set (mappings (assignMapping sliderId ch c s)).
           channel v = ch \<and> cc v = c \<longrightarrow> k = sliderId)
     \<and> distinct (map fst (mappings (assignMapping sliderId ch c s)))
     \<and> (uniqueCC (mappings s) \<longrightarrow> uniqueCC (mappings (assignMapping sliderId ch c s))))
   \<and> (uniqueCC (mappings s) \<longrightarrow>
         uniqueCC (mappings (clearMapping sliderId s)) \<and> uniqueCC (mappings (clearAllMappings s)))"
proof (intro conjI impI)
  assume a: "storage s = Entries parsed \<and> distinct (map fst parsed)"
  then have l: "mappings (loadMappings s) = keepLast parsed"
    by (simp add: loadMappings_keepLast)
  show "mappings (loadMappings s) = keepLast parsed" by (rule l)
  show "uniqueCC (mappings (loadMappings s))" by (simp add: l keepLast_uniqueCC)
  show "distinct (map fst (mappings (loadMappings s)))"
    using a by (simp add: l keepLast_distinct_keys)
next
  let ?new = "\<lparr>channel = ch, cc = c\<rparr>"
  let ?m1 = "filter (\<lambda>(k, v). \<not> (cc v = c \<and> channel v = ch \<and> k \<noteq> sliderId)) (mappings s)"
  assume d: "distinct (map fst (mappings s))"
  note m = assignMapping_mappings [OF d, of sliderId ch c]
  have d1: "distinct (map fst ?m1)" using d by (simp add: distinct_map_filter)
  have only: "\<forall>(k', v') \<in> set ?m1. channel v' = channel ?new \<and> cc v' = cc ?new \<longrightarrow> k' = sliderId"
    by auto
  show "mappings (assignMapping sliderId ch c s) = AList.update sliderId ?new ?m1"
    by (rule m)
  show "\<forall>(k, v) \<in> set (mappings s).
           k \<noteq> sliderId \<and> \<not> (channel v = ch \<and> cc v = c) \<longrightarrow>
             map_of (mappings (assignMapping sliderId ch c s)) k = Some v"
  proof (intro ballI, clarify)
    fix k v
    assume kv: "(k, v) \<in> set (mappings s)" and k: "k \<noteq> sliderId"
      and other: "\<not> (channel v = ch \<and> cc v = c)"
    from kv other have "(k, v) \<in> set ?m1" by auto
    with d1 have "map_of ?m1 k = Some v" by simp
    with k show "map_of (mappings (assignMapping sliderId ch c s)) k = Some v"
      by (simp add: m update_conv')
  qed
  show "storage (assignMapping sliderId ch c s) = Entries (mappings (assignMapping sliderId ch c s))"
    by (simp add: assignMapping_def saveMappings_def Let_def)
  show "map_of (mappings (assignMapping sliderId ch c s)) sliderId = Some ?new"
    by (simp add: m update_conv')
  show "\<forall>(k, v) \<in> set (mappings (assignMapping sliderId ch c s)).
           channel v = ch \<and> cc v = c \<longrightarrow> k = sliderId"
    unfolding m using set_update_subset [of sliderId ?new ?m1] by auto
  show "distinct (map fst (mappings (assignMapping sliderId ch c s)))"
    unfolding m using d1 by (rule distinct_update)
  {
    assume "uniqueCC (mappings s)"
    then have "uniqueCC ?m1" by (rule uniqueCC_filter)
    with d1 only show "uniqueCC (mappings (assignMapping sliderId ch c s))"
      unfolding m by (intro uniqueCC_update)
  }
next
  assume u: "uniqueCC (mappings s)"
  then show "uniqueCC (mappings (clearMapping sliderId s))"
    by (simp add: clearMapping_def saveMappings_def AList.delete_eq uniqueCC_filter)
  show "uniqueCC (mappings (clearAllMappings s))"
    by (simp add: clearAllMappings_def saveMappings_def uniqueCC_def)
qed


lemma storedTwice_distinct: "distinct (map fst storedTwice)"
  by (simp add: storedTwice_def)

lemma keepLast_storedTwice:
  "keepLast storedTwice = [(''densitySlider'', \<lparr>channel = 0, cc = 7\<rparr>),
                           (''brightnessSlider'', \<lparr>channel = 1, cc = 20\<rparr>)]"
  by (simp add: storedTwice_def)

text \<open>
  Stored: two parameters on channel 1, controller 20, and one on channel 0,
  controller 7. Loading keeps the later of the two. Assigning channel 0,
  controller 7 to a third parameter deletes the parameter that had it and leaves
  the one on channel 1, controller 20 as it is.
\<close>

theorem mappings_unique_per_controller_witness:
  "distinct (map fst storedTwice)
   \<and> mappings loadedTwice = [(''densitySlider'', \<lparr>channel = 0, cc = 7\<rparr>),
                             (''brightnessSlider'', \<lparr>channel = 1, cc = 20\<rparr>)]
   \<and> mappings (assignMapping ''bpmSlider'' 0 7 loadedTwice)
       = [(''brightnessSlider'', \<lparr>channel = 1, cc = 20\<rparr>),
          (''bpmSlider'', \<lparr>channel = 0, cc = 7\<rparr>)]
   \<and> map_of (mappings (assignMapping ''bpmSlider'' 0 7 loadedTwice)) ''brightnessSlider''
       = Some \<lparr>channel = 1, cc = 20\<rparr>
   \<and> map_of (mappings (assignMapping ''bpmSlider'' 0 7 loadedTwice)) ''bpmSlider''
       = Some \<lparr>channel = 0, cc = 7\<rparr>
   \<and> map_of (mappings (assignMapping ''bpmSlider'' 0 7 loadedTwice)) ''densitySlider'' = None
   \<and> uniqueCC (mappings (assignMapping ''bpmSlider'' 0 7 loadedTwice))"
proof -
  let ?s0 = "\<lparr>mappings = [], learning = None, onLearnComplete = False,
              storage = Entries storedTwice, learnCompleted = []\<rparr>"
  have l: "loadedTwice = loadMappings ?s0" by (simp add: loadedTwice_def newMidiManager_def)
  have st: "storage ?s0 = Entries storedTwice" by simp
  from mappings_unique_per_controller [of ?s0 storedTwice] st storedTwice_distinct
  have 1: "mappings loadedTwice = keepLast storedTwice"
    and 2: "uniqueCC (mappings loadedTwice)"
    and 3: "distinct (map fst (mappings loadedTwice))"
    unfolding l by blast+
  from mappings_unique_per_controller [of loadedTwice _ "''bpmSlider''" 0 7] 2 3
  have 4: "map_of (mappings (assignMapping ''bpmSlider'' 0 7 loadedTwice)) ''bpmSlider''
       = Some \<lparr>channel = 0, cc = 7\<rparr>"
    and 5: "uniqueCC (mappings (assignMapping ''bpmSlider'' 0 7 loadedTwice))"
    and 6: "mappings (assignMapping ''bpmSlider'' 0 7 loadedTwice) =
         AList.update ''bpmSlider'' \<lparr>channel = 0, cc = 7\<rparr>
           (filter (\<lambda>(k, v). \<not> (cc v = 7 \<and> channel v = 0 \<and> k \<noteq> ''bpmSlider''))
              (mappings loadedTwice))"
    and 7: "\<forall>(k, v) \<in> set (mappings loadedTwice).
           k \<noteq> ''bpmSlider'' \<and> \<not> (channel v = 0 \<and> cc v = 7) \<longrightarrow>
             map_of (mappings (assignMapping ''bpmSlider'' 0 7 loadedTwice)) k = Some v"
    by blast+
  from 6 have 8: "mappings (assignMapping ''bpmSlider'' 0 7 loadedTwice)
       = [(''brightnessSlider'', \<lparr>channel = 1, cc = 20\<rparr>),
          (''bpmSlider'', \<lparr>channel = 0, cc = 7\<rparr>)]"
    by (simp add: 1 keepLast_storedTwice)
  from 7 have 9: "map_of (mappings (assignMapping ''bpmSlider'' 0 7 loadedTwice)) ''brightnessSlider''
       = Some \<lparr>channel = 1, cc = 20\<rparr>"
    unfolding 1 keepLast_storedTwice by simp
  have 10: "map_of (mappings (assignMapping ''bpmSlider'' 0 7 loadedTwice)) ''densitySlider'' = None"
    by (simp add: 8)
  from storedTwice_distinct 1 4 5 8 9 10 show ?thesis by (simp add: keepLast_storedTwice)
qed

end
